theory Spec2Isabelle
  imports Main "HOL-Library.Sublist" "HOL-Library.AList"
begin

section \<open>JavaScript strings\<close>

text \<open>
  A JavaScript string is modelled as a \<^typ>\<open>string\<close>: the list of its code units, here the
  code units below 256. The line terminators of the language in that range are LF and CR;
  the white space that \<^verbatim>\<open>trim\<close> strips is TAB, VT, FF, SP, NBSP and the line terminators.
\<close>

abbreviation LF :: char where "LF \<equiv> CHR 0x0A"
abbreviation CR :: char where "CR \<equiv> CHR 0x0D"

definition is_line_terminator :: "char \<Rightarrow> bool" where
  "is_line_terminator c = (c = LF \<or> c = CR)"

definition is_white_space :: "char \<Rightarrow> bool" where
  "is_white_space c =
     (c = CHR 0x09 \<or> c = CHR 0x0B \<or> c = CHR 0x0C \<or> c = CHR 0x20 \<or> c = CHR 0xA0 \<or>
      is_line_terminator c)"

text \<open>\<^verbatim>\<open>s.trim()\<close>: white space removed at both ends.\<close>

definition trim :: "string \<Rightarrow> string" where
  "trim s = rev (dropWhile is_white_space (rev (dropWhile is_white_space s)))"

text \<open>\<^verbatim>\<open>s.startsWith(p)\<close>.\<close>

definition startsWith :: "string \<Rightarrow> string \<Rightarrow> bool" where
  "startsWith s p = prefix p s"

text \<open>
  \<^verbatim>\<open>s.replace(pat, rep)\<close> with a string pattern: the first occurrence of \<open>pat\<close> is replaced
  (the replacement strings of the source hold no \<^verbatim>\<open>$\<close> pattern).
\<close>

fun replace_first :: "string \<Rightarrow> string \<Rightarrow> string \<Rightarrow> string" where
  "replace_first pat rep [] = (if pat = [] then rep else [])"
| "replace_first pat rep (c # cs) =
     (if prefix pat (c # cs) then rep @ drop (length pat) (c # cs)
      else c # replace_first pat rep cs)"

section \<open>escapeHtml\<close>

text \<open>
  The values that reach \<^verbatim>\<open>escapeHtml(unsafe)\<close>: a string, or \<^verbatim>\<open>null\<close> / \<^verbatim>\<open>undefined\<close>,
  which the optional chaining \<^verbatim>\<open>unsafe?.replace\<close> turns into \<^verbatim>\<open>undefined\<close>.
\<close>

datatype jsval = Undefined | Null | Str string

text \<open>The character class \<^verbatim>\<open>[&<"'>]\<close> of the regular expression.\<close>

definition escape_class :: "char \<Rightarrow> bool" where
  "escape_class c = (c \<in> set [CHR ''&'', CHR ''<'', CHR 0x22, CHR 0x27, CHR ''>''])"

text \<open>The object literal that the replacement function indexes with the match.\<close>

definition entity_table :: "(char \<times> string) list" where
  "entity_table =
     [(CHR ''&'', ''&amp;''),
      (CHR ''<'', ''&lt;''),
      (CHR ''>'', ''&gt;''),
      (CHR 0x22, ''&quot;''),
      (CHR 0x27, ''&#039;'')]"

text \<open>
  The replacement function \<^verbatim>\<open>match => ({...}[match])\<close>: a key that the object lacks gives
  \<^verbatim>\<open>undefined\<close>, which \<^verbatim>\<open>replace\<close> converts to the string \<^verbatim>\<open>"undefined"\<close>.
\<close>

definition entity_of :: "char \<Rightarrow> string" where
  "entity_of c = (case map_of entity_table c of Some e \<Rightarrow> e | None \<Rightarrow> ''undefined'')"

text \<open>
  \<^verbatim>\<open>s.replace(/[...]/g, f)\<close> for a regular expression that is one character class: every
  character of the class is replaced by \<open>f\<close> of it, every other character is copied.
\<close>

fun replace_class :: "(char \<Rightarrow> bool) \<Rightarrow> (char \<Rightarrow> string) \<Rightarrow> string \<Rightarrow> string" where
  "replace_class cls f [] = []"
| "replace_class cls f (c # cs) =
     (if cls c then f c @ replace_class cls f cs else c # replace_class cls f cs)"

text \<open>\<^verbatim>\<open>x || ''\<close> for \<open>x\<close> a string or \<^verbatim>\<open>undefined\<close> (\<open>None\<close>): the empty string is falsy.\<close>

definition or_empty :: "string option \<Rightarrow> string" where
  "or_empty x = (case x of None \<Rightarrow> [] | Some t \<Rightarrow> if t = [] then [] else t)"

text \<open>\<^verbatim>\<open>escapeHtml\<close> of the minimal client (optional chaining, then \<^verbatim>\<open>|| ''\<close>).\<close>

definition escapeHtml :: "jsval \<Rightarrow> string" where
  "escapeHtml unsafe =
     or_empty (case unsafe of
                 Undefined \<Rightarrow> None
               | Null \<Rightarrow> None
               | Str s \<Rightarrow> Some (replace_class escape_class entity_of s))"

text \<open>What the claim C10 says of a string: each of the five characters becomes its entity.\<close>

definition escaped_char :: "char \<Rightarrow> string" where
  "escaped_char c =
     (if c = CHR ''&'' then ''&amp;''
      else if c = CHR ''<'' then ''&lt;''
      else if c = CHR ''>'' then ''&gt;''
      else if c = CHR 0x22 then ''&quot;''
      else if c = CHR 0x27 then ''&#039;''
      else [c])"

section \<open>Global replacement with a regular expression\<close>

text \<open>
  \<^verbatim>\<open>s.replace(re, rep)\<close> for a regular expression with the \<^verbatim>\<open>g\<close> flag scans the string
  from the left. At each position the expression is tried; a match is replaced and the scan
  goes on behind it, otherwise the character is copied. A \<open>matcher\<close> stands for one
  regular expression: told whether the position is the start of a line (what \<^verbatim>\<open>^\<close> with
  the \<^verbatim>\<open>m\<close> flag tests) and given the input from the position on, it returns the text of
  capture group 1 and the input behind the match.
\<close>

type_synonym matcher = "bool \<Rightarrow> string \<Rightarrow> (string \<times> string) option"

text \<open>
  An empty match (none of the expressions of the source has one) is replaced and the scan
  advances by one character, which is copied, as the language prescribes.
\<close>

function replace_all :: "matcher \<Rightarrow> (string \<Rightarrow> string) \<Rightarrow> bool \<Rightarrow> string \<Rightarrow> string" where
  "replace_all m r bol s =
     (case m bol s of
        None \<Rightarrow>
          (case s of
             [] \<Rightarrow> []
           | c # cs \<Rightarrow> c # replace_all m r (is_line_terminator c) cs)
      | Some (cap, rest) \<Rightarrow>
          if length rest < length s
          then r cap @
               replace_all m r
                 (is_line_terminator (last (take (length s - length rest) s))) rest
          else (case s of
                  [] \<Rightarrow> r cap
                | c # cs \<Rightarrow> r cap @ c # replace_all m r (is_line_terminator c) cs))"
  by pat_completeness auto
termination
  by (relation "measure (\<lambda>(m, r, bol, s). length s)") auto

declare replace_all.simps [simp del]

text \<open>The character classes: \<^verbatim>\<open>.\<close> (no line terminator), \<^verbatim>\<open>(.|\n)\<close> and \<^verbatim>\<open>[\s\S]\<close>.\<close>

definition dot :: "char \<Rightarrow> bool" where
  "dot c = (\<not> is_line_terminator c)"

definition dot_or_newline :: "char \<Rightarrow> bool" where
  "dot_or_newline c = (dot c \<or> c = LF)"

definition any_char :: "char \<Rightarrow> bool" where
  "any_char c = True"

text \<open>
  \<^verbatim>\<open>/^MARK(.*$)/m\<close> and \<^verbatim>\<open>/^MARK(.*)/m\<close>: at the start of a line, the marker and then the
  longest run of characters that are no line terminators (the greedy \<^verbatim>\<open>.*\<close> stops where
  \<^verbatim>\<open>$\<close> holds: at a line terminator or at the end).
\<close>

definition line_matcher :: "string \<Rightarrow> matcher" where
  "line_matcher mark bol s =
     (if bol \<and> prefix mark s
      then Some (takeWhile dot (drop (length mark) s), dropWhile dot (drop (length mark) s))
      else None)"

text \<open>
  \<^verbatim>\<open>(X*?)CLOSE\<close>: the lazy quantifier takes the fewest characters of the class \<open>X\<close> after
  which \<open>CLOSE\<close> follows; a character outside the class before that ends the attempt.
\<close>

fun lazy_until :: "(char \<Rightarrow> bool) \<Rightarrow> string \<Rightarrow> string \<Rightarrow> (string \<times> string) option" where
  "lazy_until ok close [] = (if close = [] then Some ([], []) else None)"
| "lazy_until ok close (c # cs) =
     (if prefix close (c # cs) then Some ([], drop (length close) (c # cs))
      else if ok c
      then (case lazy_until ok close cs of
              None \<Rightarrow> None
            | Some (cap, rest) \<Rightarrow> Some (c # cap, rest))
      else None)"

text \<open>\<^verbatim>\<open>/OPEN(X*?)CLOSE/\<close>.\<close>

definition delim_matcher :: "string \<Rightarrow> (char \<Rightarrow> bool) \<Rightarrow> string \<Rightarrow> matcher" where
  "delim_matcher opn ok close bol s =
     (if prefix opn s then lazy_until ok close (drop (length opn) s) else None)"

section \<open>formatMarkdown\<close>

text \<open>The replacement string \<^verbatim>\<open>'<tag>$1</tag>'\<close>.\<close>

definition wrap :: "string \<Rightarrow> string \<Rightarrow> string \<Rightarrow> string" where
  "wrap opening closing cap = opening @ cap @ closing"

text \<open>
  The replacement function of the fenced code block: the template literal of the source with
  its line breaks and indentation, and \<^verbatim>\<open>escapeHtml(code)\<close> in both places.
\<close>

definition code_block :: "string \<Rightarrow> string" where
  "code_block code =
     LF # replicate 12 CHR '' '' @ ''<div class='' @ [CHR 0x22] @ ''code-block'' @ [CHR 0x22] @ ''>'' @
     LF # replicate 16 CHR '' '' @ ''<button class='' @ [CHR 0x22] @ ''copy-btn'' @ [CHR 0x22] @
       '' onclick='' @ [CHR 0x22] @ ''copyToClipboard('' @ [CHR 0x27] @ escapeHtml (Str code) @
       [CHR 0x27] @ '')'' @ [CHR 0x22] @ ''>'' @
     LF # replicate 20 CHR '' '' @ ''Copy Code'' @
     LF # replicate 16 CHR '' '' @ ''</button>'' @
     LF # replicate 16 CHR '' '' @ ''<pre><code>'' @ escapeHtml (Str code) @ ''</code></pre>'' @
     LF # replicate 12 CHR '' '' @ ''</div>'' @
     LF # replicate 8 CHR '' ''"

text \<open>The eight passes of \<^verbatim>\<open>formatMarkdown\<close>, one for each \<^verbatim>\<open>.replace\<close> of the chain.\<close>

definition h3_pass :: "string \<Rightarrow> string" where
  "h3_pass = replace_all (line_matcher ''### '') (wrap ''<h3>'' ''</h3>'') True"

definition h2_pass :: "string \<Rightarrow> string" where
  "h2_pass = replace_all (line_matcher ''## '') (wrap ''<h2>'' ''</h2>'') True"

definition h1_pass :: "string \<Rightarrow> string" where
  "h1_pass = replace_all (line_matcher ''# '') (wrap ''<h1>'' ''</h1>'') True"

definition bold_pass :: "string \<Rightarrow> string" where
  "bold_pass = replace_all (delim_matcher ''**'' dot ''**'') (wrap ''<strong>'' ''</strong>'') True"

definition italic_pass :: "string \<Rightarrow> string" where
  "italic_pass = replace_all (delim_matcher ''*'' dot ''*'') (wrap ''<em>'' ''</em>'') True"

definition code_pass :: "string \<Rightarrow> string" where
  "code_pass =
     replace_all (delim_matcher [CHR 0x60] dot_or_newline [CHR 0x60]) (wrap ''<code>'' ''</code>'') True"

definition fence_pass :: "string \<Rightarrow> string" where
  "fence_pass =
     replace_all (delim_matcher (replicate 3 (CHR 0x60)) any_char (replicate 3 (CHR 0x60)))
       code_block True"

definition list_pass :: "string \<Rightarrow> string" where
  "list_pass = replace_all (line_matcher ''- '') (wrap ''<ul><li>'' ''</li></ul>'') True"

definition formatMarkdown :: "string \<Rightarrow> string" where
  "formatMarkdown text =
     list_pass (fence_pass (code_pass (italic_pass (bold_pass (h1_pass (h2_pass (h3_pass text)))))))"

section \<open>Splitting the buffer into lines\<close>

text \<open>
  \<^verbatim>\<open>/\r?\n/\<close> tried at the start of the input: the matched text and the input behind it.
\<close>

definition newline_match :: "string \<Rightarrow> (string \<times> string) option" where
  "newline_match s =
     (if prefix [CR, LF] s then Some ([CR, LF], drop 2 s)
      else if prefix [LF] s then Some ([LF], drop 1 s)
      else None)"

lemma newline_match_shorter [termination_simp]:
  "newline_match (c # cs) = Some (sep, rest) \<Longrightarrow> length rest < Suc (length cs)"
  by (auto simp: newline_match_def prefix_def split: if_splits)

text \<open>
  \<^verbatim>\<open>s.split(/\r?\n/)\<close> (the main client): the texts between the matches; the result always
  has a last element, the text behind the last match.
\<close>

fun split_lines :: "string \<Rightarrow> string list" where
  "split_lines [] = [[]]"
| "split_lines (c # cs) =
     (case newline_match (c # cs) of
        Some (sep, rest) \<Rightarrow> [] # split_lines rest
      | None \<Rightarrow>
          (case split_lines cs of
             [] \<Rightarrow> [[c]]
           | l # ls \<Rightarrow> (c # l) # ls))"

text \<open>
  \<^verbatim>\<open>s.split(/(\r?\n)/)\<close> (the minimal client): with a capture group, the matched line
  breaks are elements of the result too.
\<close>

fun split_lines_captured :: "string \<Rightarrow> string list" where
  "split_lines_captured [] = [[]]"
| "split_lines_captured (c # cs) =
     (case newline_match (c # cs) of
        Some (sep, rest) \<Rightarrow> [] # sep # split_lines_captured rest
      | None \<Rightarrow>
          (case split_lines_captured cs of
             [] \<Rightarrow> [[c]]
           | l # ls \<Rightarrow> (c # l) # ls))"

section \<open>The page and its state\<close>

text \<open>
  The conversation store of the main client: \<^verbatim>\<open>chats\<close> is an object keyed by chat id (here
  the list of its entries in insertion order), each chat a name and its exchanges.
\<close>

record exchange =
  question :: string
  answer :: string

record chat =
  name :: string
  messages :: "exchange list"

text \<open>
  The children of \<^verbatim>\<open>chatWindow\<close>. A message is a \<^verbatim>\<open>div\<close> with a class name and a content
  set as text or as HTML. The element that \<^verbatim>\<open>createAssistantMessageElements\<close> builds has
  the HTML of its \<^verbatim>\<open>.stream-content\<close> span, the \<^verbatim>\<open>.streaming\<close> cursor span (present or
  removed) and the text of its raw \<^verbatim>\<open>pre\<close>.
\<close>

datatype content = TextContent string | InnerHTML string

datatype node =
    MessageDiv string content
  | AssistantDiv string bool string

datatype request =
    StreamChat string string "string option"
  | ResetChat string

text \<open>
  The globals of the scripts and what they reach: the store, the selected model, the value
  of the input box, the chat window, the alerts shown and the requests sent so far.
  Scrolling, the list of chats (a view of \<^verbatim>\<open>chats\<close>) and the syntax highlighter are left out.
\<close>

record app_state =
  chats :: "(string \<times> chat) list"
  currentChatId :: string
  selectedModel :: "string option"
  userInput :: string
  chatWindow :: "node list"
  alerts :: "string list"
  requests :: "request list"

text \<open>An exception with its \<^verbatim>\<open>message\<close>: a \<^verbatim>\<open>TypeError\<close> of the engine, or a failed transport.\<close>

datatype js_error = TypeError string | Failure string

fun message :: "js_error \<Rightarrow> string" where
  "message (TypeError m) = m"
| "message (Failure m) = m"

text \<open>\<^verbatim>\<open>xs[i]\<close> for a number \<open>i\<close>: \<^verbatim>\<open>undefined\<close> outside the array.\<close>

definition nth_opt :: "'a list \<Rightarrow> int \<Rightarrow> 'a option" where
  "nth_opt xs i = (if 0 \<le> i \<and> i < int (length xs) then Some (xs ! nat i) else None)"

text \<open>Writes to the two elements of an assistant message, found by its position in the window.\<close>

definition set_stream_content :: "nat \<Rightarrow> string \<Rightarrow> app_state \<Rightarrow> app_state" where
  "set_stream_content el html st =
     (if el < length (chatWindow st)
      then (case chatWindow st ! el of
              AssistantDiv h cur raw \<Rightarrow> st\<lparr>chatWindow := (chatWindow st)[el := AssistantDiv html cur raw]\<rparr>
            | MessageDiv cl b \<Rightarrow> st)
      else st)"

definition get_stream_content :: "nat \<Rightarrow> app_state \<Rightarrow> string" where
  "get_stream_content el st =
     (if el < length (chatWindow st)
      then (case chatWindow st ! el of AssistantDiv h cur raw \<Rightarrow> h | MessageDiv cl b \<Rightarrow> [])
      else [])"

definition set_rawPre :: "nat \<Rightarrow> string \<Rightarrow> app_state \<Rightarrow> app_state" where
  "set_rawPre el txt st =
     (if el < length (chatWindow st)
      then (case chatWindow st ! el of
              AssistantDiv h cur raw \<Rightarrow> st\<lparr>chatWindow := (chatWindow st)[el := AssistantDiv h cur txt]\<rparr>
            | MessageDiv cl b \<Rightarrow> st)
      else st)"

text \<open>
  \<^verbatim>\<open>document.querySelector('.streaming')\<close> is the first cursor of the document;
  \<^verbatim>\<open>remove()\<close> (when there is one) takes it out.
\<close>

fun remove_first_cursor :: "node list \<Rightarrow> node list" where
  "remove_first_cursor [] = []"
| "remove_first_cursor (AssistantDiv h True raw # ns) = AssistantDiv h False raw # ns"
| "remove_first_cursor (n # ns) = n # remove_first_cursor ns"

definition remove_cursor :: "app_state \<Rightarrow> app_state" where
  "remove_cursor st = st\<lparr>chatWindow := remove_first_cursor (chatWindow st)\<rparr>"

text \<open>\<^verbatim>\<open>createAssistantMessageElements\<close>: the new element, with its cursor, and where it is.\<close>

definition createAssistantMessageElements :: "app_state \<Rightarrow> nat \<times> app_state" where
  "createAssistantMessageElements st =
     (length (chatWindow st), st\<lparr>chatWindow := chatWindow st @ [AssistantDiv [] True []]\<rparr>)"

section \<open>The main client (static/app.js)\<close>

text \<open>
  What the script gets from outside is a parameter: \<open>marked\<close> is \<^verbatim>\<open>marked.parse\<close>, \<open>dec\<close> is
  \<^verbatim>\<open>decoder.decode(value, { stream: true })\<close> as a function of the decoder's state and the
  chunk, and the reads of the response body are a list: each a chunk or a rejection, its end
  the read that reports \<^verbatim>\<open>done\<close>.
\<close>

datatype 'b read_event = Chunk 'b | ReadError string

datatype 'b fetch_result =
    NetworkError string
  | Response bool string "'b read_event list"

text \<open>\<^verbatim>\<open>escapeHtml\<close> of the main client, on a string.\<close>

definition escapeHtml_main :: "string \<Rightarrow> string" where
  "escapeHtml_main unsafe = replace_class escape_class entity_of unsafe"

definition addMessageToChat :: "(string \<Rightarrow> string) \<Rightarrow> string \<Rightarrow> string \<Rightarrow> app_state \<Rightarrow> app_state" where
  "addMessageToChat marked type content st =
     st\<lparr>chatWindow := chatWindow st @
        [MessageDiv (''message '' @ type)
           (if type = ''assistant'' then InnerHTML (marked content) else TextContent content)]\<rparr>"

text \<open>\<^verbatim>\<open>chats[chatId].messages[chatIndex].answer += text\<close>, where both exist.\<close>

definition append_answer :: "string \<Rightarrow> int \<Rightarrow> string \<Rightarrow> app_state \<Rightarrow> app_state" where
  "append_answer chatId chatIndex txt st =
     (case map_of (chats st) chatId of
        None \<Rightarrow> st
      | Some c \<Rightarrow>
          (case nth_opt (messages c) chatIndex of
             None \<Rightarrow> st
           | Some qa \<Rightarrow>
               st\<lparr>chats := AList.update chatId
                    (c\<lparr>messages := (messages c)[nat chatIndex := qa\<lparr>answer := answer qa @ txt\<rparr>]\<rparr>)
                    (chats st)\<rparr>))"

text \<open>
  The body of the \<^verbatim>\<open>for\<close> loop for a payload \<open>data\<close> that is not the sentinel (lines 290
  to 299). \<open>Inl\<close> is an exception, with the state it leaves.
\<close>

fun on_payload ::
  "(string \<Rightarrow> string) \<Rightarrow> nat \<Rightarrow> int \<Rightarrow> string \<Rightarrow> string \<times> app_state \<Rightarrow>
   (js_error \<times> app_state) + (string \<times> app_state)" where
  "on_payload marked el chatIndex data (rawText, st) =
     (let rawText' = rawText @ data @ [LF];
          st1 = set_rawPre el rawText' st;
          st2 = append_answer (currentChatId st1) chatIndex (data @ [LF]) st1
      in case map_of (chats st2) (currentChatId st2) of
           None \<Rightarrow> Inl (TypeError ''chats[currentChatId] is undefined'', st2)
         | Some c \<Rightarrow>
             (case nth_opt (messages c) chatIndex of
                None \<Rightarrow> Inl (TypeError ''messages[chatIndex] is undefined'', st2)
              | Some qa \<Rightarrow> Inr (rawText', set_stream_content el (marked (answer qa)) st2)))"

text \<open>
  The \<^verbatim>\<open>for\<close> loop over the complete lines of one chunk; \<^verbatim>\<open>break\<close> ends this loop only.
\<close>

fun for_lines ::
  "(string \<Rightarrow> string) \<Rightarrow> nat \<Rightarrow> int \<Rightarrow> string list \<Rightarrow> string \<times> app_state \<Rightarrow>
   (js_error \<times> app_state) + (string \<times> app_state)" where
  "for_lines marked el chatIndex [] (rawText, st) = Inr (rawText, st)"
| "for_lines marked el chatIndex (line # lines) (rawText, st) =
     (if trim line = [] then for_lines marked el chatIndex lines (rawText, st)
      else if startsWith line ''data: '' then
        (let data = trim (replace_first ''data: '' [] line) in
         if data = ''[DONE]'' then Inr (rawText, remove_cursor st)
         else (case on_payload marked el chatIndex data (rawText, st) of
                 Inl e \<Rightarrow> Inl e
               | Inr acc \<Rightarrow> for_lines marked el chatIndex lines acc))
      else for_lines marked el chatIndex lines (rawText, st))"

text \<open>The \<^verbatim>\<open>while (true)\<close> loop: one read for each turn, until the read that reports \<^verbatim>\<open>done\<close>.\<close>

fun read_loop ::
  "('d \<Rightarrow> 'b \<Rightarrow> string \<times> 'd) \<Rightarrow> (string \<Rightarrow> string) \<Rightarrow> nat \<Rightarrow> int \<Rightarrow> 'b read_event list \<Rightarrow>
   'd \<Rightarrow> string \<Rightarrow> string \<times> app_state \<Rightarrow> (js_error \<times> app_state) + (string \<times> app_state)" where
  "read_loop dec marked el chatIndex [] d partialChunk (rawText, st) = Inr (rawText, st)"
| "read_loop dec marked el chatIndex (ReadError msg # reads) d partialChunk (rawText, st) =
     Inl (Failure msg, st)"
| "read_loop dec marked el chatIndex (Chunk v # reads) d partialChunk (rawText, st) =
     (let (chunk, d') = dec d v;
          lines = split_lines (partialChunk @ chunk)
      in case for_lines marked el chatIndex (butlast lines) (rawText, st) of
           Inl e \<Rightarrow> Inl e
         | Inr acc \<Rightarrow> read_loop dec marked el chatIndex reads d' (last lines) acc)"

definition processStreamResponse ::
  "('d \<Rightarrow> 'b \<Rightarrow> string \<times> 'd) \<Rightarrow> 'd \<Rightarrow> (string \<Rightarrow> string) \<Rightarrow> 'b read_event list \<Rightarrow> nat \<Rightarrow>
   app_state \<Rightarrow> (js_error \<times> app_state) + app_state" where
  "processStreamResponse dec d0 marked body el st =
     (case map_of (chats st) (currentChatId st) of
        None \<Rightarrow> Inl (TypeError ''chats[currentChatId] is undefined'', st)
      | Some c \<Rightarrow>
          (case read_loop dec marked el (int (length (messages c)) - 1) body d0 [] ([], st) of
             Inl e \<Rightarrow> Inl e
           | Inr (rawText, st') \<Rightarrow> Inr (remove_cursor st')))"

text \<open>Lines 192 to 195 of \<^verbatim>\<open>sendMessage\<close>: the exchange is pushed, on a chat made if need be.\<close>

definition appendExchange :: "string \<Rightarrow> app_state \<Rightarrow> app_state" where
  "appendExchange q st =
     (let c = (case map_of (chats st) (currentChatId st) of
                 None \<Rightarrow> \<lparr>name = ''Unnamed Chat'', messages = []\<rparr>
               | Some c \<Rightarrow> c)
      in st\<lparr>chats := AList.update (currentChatId st)
              (c\<lparr>messages := messages c @ [\<lparr>question = q, answer = []\<rparr>]\<rparr>) (chats st)\<rparr>)"

text \<open>The \<^verbatim>\<open>catch\<close> block of \<^verbatim>\<open>sendMessage\<close>.\<close>

definition catch_stream_error :: "nat \<Rightarrow> js_error \<Rightarrow> app_state \<Rightarrow> app_state" where
  "catch_stream_error el err st =
     (let errorMsg = ''Error: '' @ message err;
          st1 = set_stream_content el
                  (get_stream_content el st @ ''<br><em>'' @ escapeHtml_main errorMsg @ ''</em>'') st
      in case map_of (chats st1) (currentChatId st1) of
           None \<Rightarrow> st1
         | Some c \<Rightarrow>
             if messages c = [] then st1
             else st1\<lparr>chats := AList.update (currentChatId st1)
                    (c\<lparr>messages := (messages c)[length (messages c) - 1 :=
                         (messages c ! (length (messages c) - 1))\<lparr>answer := errorMsg\<rparr>]\<rparr>)
                    (chats st1)\<rparr>)"

text \<open>
  \<^verbatim>\<open>sendMessage\<close>. \<^verbatim>\<open>!selectedModel\<close> holds for no model and for the empty string. The
  outcome of \<^verbatim>\<open>fetch('/stream_chat', ...)\<close> is the parameter \<open>net\<close>.
\<close>

definition no_model_alert :: "app_state \<Rightarrow> app_state" where
  "no_model_alert st = st\<lparr>alerts := alerts st @ [''Please select a model first'']\<rparr>"

definition send_request ::
  "('d \<Rightarrow> 'b \<Rightarrow> string \<times> 'd) \<Rightarrow> 'd \<Rightarrow> (string \<Rightarrow> string) \<Rightarrow> 'b fetch_result \<Rightarrow> string \<Rightarrow> string \<Rightarrow>
   app_state \<Rightarrow> app_state" where
  "send_request dec d0 marked net prompt model st =
     (let st1 = appendExchange prompt st;
          st2 = addMessageToChat marked ''user'' prompt st1;
          st3 = st2\<lparr>userInput := []\<rparr>;
          (el, st4) = createAssistantMessageElements st3;
          st5 = st4\<lparr>requests := requests st4 @
                  [StreamChat prompt model (Some (currentChatId st4))]\<rparr>
      in case net of
           NetworkError msg \<Rightarrow> catch_stream_error el (Failure msg) st5
         | Response ok statusText body \<Rightarrow>
             if \<not> ok then catch_stream_error el (Failure statusText) st5
             else (case processStreamResponse dec d0 marked body el st5 of
                     Inl (err, st6) \<Rightarrow> catch_stream_error el err st6
                   | Inr st6 \<Rightarrow> st6))"

definition sendMessage ::
  "('d \<Rightarrow> 'b \<Rightarrow> string \<times> 'd) \<Rightarrow> 'd \<Rightarrow> (string \<Rightarrow> string) \<Rightarrow> 'b fetch_result \<Rightarrow> app_state \<Rightarrow> app_state" where
  "sendMessage dec d0 marked net st =
     (let prompt = trim (userInput st) in
      if prompt = [] then st
      else (case selectedModel st of
              None \<Rightarrow> no_model_alert st
            | Some model \<Rightarrow>
                if model = [] then no_model_alert st
                else send_request dec d0 marked net prompt model st))"

text \<open>\<^verbatim>\<open>renderMessages\<close>: the window is emptied and the active chat, if there is one, shown.\<close>

definition renderMessages :: "(string \<Rightarrow> string) \<Rightarrow> app_state \<Rightarrow> app_state" where
  "renderMessages marked st =
     (case map_of (chats st) (currentChatId st) of
        None \<Rightarrow> st\<lparr>chatWindow := []\<rparr>
      | Some c \<Rightarrow>
          fold (\<lambda>qa s. addMessageToChat marked ''assistant'' (answer qa)
                        (addMessageToChat marked ''user'' (question qa) s))
            (messages c) (st\<lparr>chatWindow := []\<rparr>))"

text \<open>
  \<^verbatim>\<open>createNewChat(defaultName)\<close>. \<open>asked\<close> is what \<^verbatim>\<open>prompt(...)\<close> returns when it is called
  (\<open>None\<close> for \<^verbatim>\<open>null\<close>), \<open>uuid\<close> what \<^verbatim>\<open>generateUUID()\<close> returns.
\<close>

definition createNewChat ::
  "(string \<Rightarrow> string) \<Rightarrow> string option \<Rightarrow> string option \<Rightarrow> string \<Rightarrow> app_state \<Rightarrow> app_state" where
  "createNewChat marked defaultName asked uuid st =
     (let chatName = (case defaultName of
                        None \<Rightarrow> asked
                      | Some n \<Rightarrow> if n = [] then asked else Some n)
      in case chatName of
           None \<Rightarrow> st
         | Some n \<Rightarrow>
             if n = [] then st
             else renderMessages marked
                    (st\<lparr>chats := AList.update uuid \<lparr>name = n, messages = []\<rparr> (chats st),
                        currentChatId := uuid\<rparr>))"

text \<open>A click on the name of a chat in the list.\<close>

definition selectChat :: "(string \<Rightarrow> string) \<Rightarrow> string \<Rightarrow> app_state \<Rightarrow> app_state" where
  "selectChat marked chatId st = renderMessages marked (st\<lparr>currentChatId := chatId\<rparr>)"

text \<open>
  The reset of a chat in the store, \<^verbatim>\<open>chats[chatId].messages = []\<close>; \<open>None\<close> is the
  \<^verbatim>\<open>TypeError\<close> for a chat that does not exist.
\<close>

definition resetChat :: "string \<Rightarrow> app_state \<Rightarrow> app_state option" where
  "resetChat chatId st =
     (case map_of (chats st) chatId of
        None \<Rightarrow> None
      | Some c \<Rightarrow> Some (st\<lparr>chats := AList.update chatId (c\<lparr>messages := []\<rparr>) (chats st)\<rparr>))"

text \<open>
  The click handler of a Reset button. The server's answer to \<^verbatim>\<open>/reset_chat\<close> is a
  parameter: no answer that parses (the \<^verbatim>\<open>fetch\<close> or \<^verbatim>\<open>response.json()\<close> rejects), or
  \<^verbatim>\<open>response.ok\<close> with the \<^verbatim>\<open>error\<close> field of the body.
\<close>

datatype reset_result = ResetFailed | ResetReplied bool "string option"

definition reset_click :: "(string \<Rightarrow> string) \<Rightarrow> reset_result \<Rightarrow> string \<Rightarrow> app_state \<Rightarrow> app_state" where
  "reset_click marked res chatId st =
     (let st1 = st\<lparr>requests := requests st @ [ResetChat chatId]\<rparr>
      in case res of
           ResetFailed \<Rightarrow> st1\<lparr>alerts := alerts st1 @ [''Failed to reset chat.'']\<rparr>
         | ResetReplied ok err \<Rightarrow>
             if ok then
               (case resetChat chatId st1 of
                  None \<Rightarrow> st1\<lparr>alerts := alerts st1 @ [''Failed to reset chat.'']\<rparr>
                | Some st2 \<Rightarrow> renderMessages marked st2)
             else st1\<lparr>alerts := alerts st1 @
                    [case err of
                       None \<Rightarrow> ''Failed to reset chat.''
                     | Some e \<Rightarrow> if e = [] then ''Failed to reset chat.'' else e]\<rparr>)"

section \<open>The minimal client (unnamed/part_000)\<close>

text \<open>
  The minimal client has no store: its functions work on the selected model, the input box
  and the window, and leave the other components of the state alone.
\<close>

definition addMessageToChat_min :: "string \<Rightarrow> string \<Rightarrow> bool \<Rightarrow> app_state \<Rightarrow> app_state" where
  "addMessageToChat_min type content isSystem st =
     st\<lparr>chatWindow := chatWindow st @
        [MessageDiv (''message '' @ type @ '' '' @ (if isSystem then ''system'' else []))
           (InnerHTML (if isSystem then escapeHtml (Str content)
                       else formatMarkdown (escapeHtml (Str content))))]\<rparr>"

definition selectModel :: "string \<Rightarrow> app_state \<Rightarrow> app_state" where
  "selectModel modelName st =
     addMessageToChat_min ''assistant'' (''Model selected: '' @ modelName) True
       (st\<lparr>selectedModel := Some modelName\<rparr>)"

text \<open>The body of the \<^verbatim>\<open>for\<close> loop for a payload that is not the sentinel (lines 140 to 144).\<close>

fun on_payload_min :: "nat \<Rightarrow> string \<Rightarrow> string \<times> app_state \<Rightarrow> string \<times> app_state" where
  "on_payload_min el data (rawText, st) =
     (let rawText' = rawText @ data @ [LF];
          st1 = set_rawPre el rawText' st
      in (rawText', set_stream_content el (formatMarkdown (escapeHtml (Str rawText'))) st1))"

text \<open>The \<^verbatim>\<open>for\<close> loop over the lines that are not blank; it raises no exception.\<close>

fun for_lines_min :: "nat \<Rightarrow> string list \<Rightarrow> string \<times> app_state \<Rightarrow> string \<times> app_state" where
  "for_lines_min el [] (rawText, st) = (rawText, st)"
| "for_lines_min el (line # lines) (rawText, st) =
     (if startsWith line ''data: '' then
        (let data = trim (replace_first ''data: '' [] line) in
         if data = ''[DONE]'' then (rawText, st)
         else for_lines_min el lines (on_payload_min el data (rawText, st)))
      else for_lines_min el lines (rawText, st))"

fun read_loop_min ::
  "('d \<Rightarrow> 'b \<Rightarrow> string \<times> 'd) \<Rightarrow> nat \<Rightarrow> 'b read_event list \<Rightarrow> 'd \<Rightarrow> string \<Rightarrow> string \<times> app_state \<Rightarrow>
   (js_error \<times> app_state) + (string \<times> app_state)" where
  "read_loop_min dec el [] d partialChunk (rawText, st) = Inr (rawText, st)"
| "read_loop_min dec el (ReadError msg # reads) d partialChunk (rawText, st) =
     Inl (Failure msg, st)"
| "read_loop_min dec el (Chunk v # reads) d partialChunk (rawText, st) =
     (let (chunk, d') = dec d v;
          lines = split_lines_captured (partialChunk @ chunk)
      in read_loop_min dec el reads d' (last lines)
           (for_lines_min el (filter (\<lambda>l. trim l \<noteq> []) (butlast lines)) (rawText, st)))"

definition processStreamResponse_min ::
  "('d \<Rightarrow> 'b \<Rightarrow> string \<times> 'd) \<Rightarrow> 'd \<Rightarrow> 'b read_event list \<Rightarrow> nat \<Rightarrow> app_state \<Rightarrow>
   (js_error \<times> app_state) + app_state" where
  "processStreamResponse_min dec d0 body el st =
     (case read_loop_min dec el body d0 [] ([], st) of
        Inl e \<Rightarrow> Inl e
      | Inr (rawText, st') \<Rightarrow> Inr (remove_cursor st'))"

definition handleStreamError :: "js_error \<Rightarrow> app_state \<Rightarrow> app_state" where
  "handleStreamError err st =
     st\<lparr>chatWindow := chatWindow st @
        [MessageDiv ''message error'' (TextContent (''Error: '' @ message err))]\<rparr>"

text \<open>
  \<^verbatim>\<open>sendMessage\<close> of the minimal client. Its guard
  \<^verbatim>\<open>if (!prompt || !selectedModel) { if (!selectedModel) alert(...); return; }\<close>
  alerts whenever no model is selected and returns silently for an empty prompt otherwise.
\<close>

definition send_request_min ::
  "('d \<Rightarrow> 'b \<Rightarrow> string \<times> 'd) \<Rightarrow> 'd \<Rightarrow> 'b fetch_result \<Rightarrow> string \<Rightarrow> string \<Rightarrow> app_state \<Rightarrow> app_state" where
  "send_request_min dec d0 net prompt model st =
     (let st1 = addMessageToChat_min ''user'' prompt False st;
          st2 = st1\<lparr>userInput := []\<rparr>;
          (el, st3) = createAssistantMessageElements st2;
          st4 = st3\<lparr>requests := requests st3 @ [StreamChat prompt model None]\<rparr>
      in case net of
           NetworkError msg \<Rightarrow> handleStreamError (Failure msg) st4
         | Response ok statusText body \<Rightarrow>
             if \<not> ok then handleStreamError (Failure statusText) st4
             else (case processStreamResponse_min dec d0 body el st4 of
                     Inl (err, st5) \<Rightarrow> handleStreamError err st5
                   | Inr st5 \<Rightarrow> st5))"

definition sendMessage_min ::
  "('d \<Rightarrow> 'b \<Rightarrow> string \<times> 'd) \<Rightarrow> 'd \<Rightarrow> 'b fetch_result \<Rightarrow> app_state \<Rightarrow> app_state" where
  "sendMessage_min dec d0 net st =
     (let prompt = trim (userInput st) in
      case selectedModel st of
        None \<Rightarrow> no_model_alert st
      | Some model \<Rightarrow>
          if model = [] then no_model_alert st
          else if prompt = [] then st
          else send_request_min dec d0 net prompt model st)"

section \<open>Notions of the specification\<close>

text \<open>No model is selected: \<^verbatim>\<open>selectedModel\<close> is \<^verbatim>\<open>null\<close> or empty.\<close>

definition no_model :: "string option \<Rightarrow> bool" where
  "no_model m = (case m of None \<Rightarrow> True | Some x \<Rightarrow> x = [])"

text \<open>The messages of a chat of the store; none for a chat that does not exist.\<close>

definition messages_of :: "app_state \<Rightarrow> string \<Rightarrow> exchange list" where
  "messages_of st chatId = (case map_of (chats st) chatId of None \<Rightarrow> [] | Some c \<Rightarrow> messages c)"








text \<open>
  The Markdown renderer of the specification. A rule for lines is applied to each line of the
  text, the lines being what the line terminators separate (the terminators are kept):
  a line that begins with the marker is wrapped, without the marker, in the two tags.
\<close>

function map_lines :: "(string \<Rightarrow> string) \<Rightarrow> string \<Rightarrow> string" where
  "map_lines f s =
     (case dropWhile dot s of
        [] \<Rightarrow> f (takeWhile dot s)
      | c # cs \<Rightarrow> f (takeWhile dot s) @ c # map_lines f cs)"
  by pat_completeness auto
termination
proof (relation "measure (\<lambda>(f, s). length s)")
  show "wf (measure (\<lambda>(f, s). length s))" by simp
next
  fix f :: "string \<Rightarrow> string" and s :: string and c cs
  assume "dropWhile dot s = c # cs"
  then have "length (c # cs) \<le> length s" by (metis length_dropWhile_le)
  then show "((f, cs), (f, s)) \<in> measure (\<lambda>(f, s). length s)" by simp
qed

declare map_lines.simps [simp del]

definition wrap_line :: "string \<Rightarrow> string \<Rightarrow> string \<Rightarrow> string \<Rightarrow> string" where
  "wrap_line mark opening closing l =
     (if prefix mark l then opening @ drop (length mark) l @ closing else l)"

text \<open>
  A rule for delimited text is applied from the left of the text. Where the opening delimiter
  stands, the match is not greedy: the text of the span ends at the first closing delimiter
  behind the opening one. When that text is of the kind the rule allows, the span, delimiters
  included, is replaced by the rendering of the text and the rule goes on behind the span.
  Where there is no such span the character is kept and the rule goes on with the next one.
\<close>

fun find_delim :: "string \<Rightarrow> string \<Rightarrow> nat option" where
  "find_delim d [] = (if d = [] then Some 0 else None)"
| "find_delim d (c # cs) =
     (if prefix d (c # cs) then Some 0 else map_option Suc (find_delim d cs))"

function span_rule ::
  "string \<Rightarrow> (char \<Rightarrow> bool) \<Rightarrow> string \<Rightarrow> (string \<Rightarrow> string) \<Rightarrow> string \<Rightarrow> string" where
  "span_rule [] inside cls render s = s"
| "span_rule (d # ds) inside cls render [] = []"
| "span_rule (d # ds) inside cls render (c # cs) =
     (case (if prefix (d # ds) (c # cs) then find_delim cls (drop (length ds) cs) else None) of
        None \<Rightarrow> c # span_rule (d # ds) inside cls render cs
      | Some n \<Rightarrow>
          if list_all inside (take n (drop (length ds) cs))
          then render (take n (drop (length ds) cs)) @
               span_rule (d # ds) inside cls render (drop (length ds + n + length cls) cs)
          else c # span_rule (d # ds) inside cls render cs)"
  by pat_completeness auto
termination
  by (relation "measure (\<lambda>(opn, inside, cls, render, s). length s)") auto

declare span_rule.simps [simp del]

text \<open>
  The text of a span: bold and italic text lies within a line; inline code may span newlines,
  a newline being the character LF (a carriage return is not spanned); the text of a fenced
  block is any text.
\<close>

definition within_line :: "char \<Rightarrow> bool" where
  "within_line c = (\<not> is_line_terminator c)"

definition line_or_newline :: "char \<Rightarrow> bool" where
  "line_or_newline c = (within_line c \<or> c = LF)"

text \<open>The rendering of a span: an element with the text as its content.\<close>

definition element :: "string \<Rightarrow> string \<Rightarrow> string" where
  "element tag body = ''<'' @ tag @ ''>'' @ body @ ''</'' @ tag @ ''>''"

text \<open>
  The code region of a fenced block: a block that holds the copy control, a button labelled
  \<^verbatim>\<open>Copy Code\<close> that passes the escaped text to \<^verbatim>\<open>copyToClipboard\<close>, and the escaped text
  as preformatted code. Each part stands on a line of its own, indented by the given number
  of spaces.
\<close>

definition code_region :: "string \<Rightarrow> string" where
  "code_region body =
     concat (map (\<lambda>(n, l). LF # replicate n CHR '' '' @ l)
       [(12, ''<div class='' @ [CHR 0x22] @ ''code-block'' @ [CHR 0x22] @ ''>''),
        (16, ''<button class='' @ [CHR 0x22] @ ''copy-btn'' @ [CHR 0x22] @ '' onclick='' @
             [CHR 0x22] @ ''copyToClipboard('' @ [CHR 0x27] @ concat (map escaped_char body) @
             [CHR 0x27] @ '')'' @ [CHR 0x22] @ ''>''),
        (20, ''Copy Code''),
        (16, ''</button>''),
        (16, ''<pre><code>'' @ concat (map escaped_char body) @ ''</code></pre>''),
        (12, ''</div>''),
        (8, [])])"

text \<open>
  \<^verbatim>\<open>**text**\<close> is bold, \<^verbatim>\<open>*text*\<close> is italic, text between single backticks is inline code
  and text between triple backticks is a fenced block.
\<close>

definition bold_rule :: "string \<Rightarrow> string" where
  "bold_rule = span_rule ''**'' within_line ''**'' (element ''strong'')"

definition italic_rule :: "string \<Rightarrow> string" where
  "italic_rule = span_rule ''*'' within_line ''*'' (element ''em'')"

definition inline_code_rule :: "string \<Rightarrow> string" where
  "inline_code_rule = span_rule [CHR 0x60] line_or_newline [CHR 0x60] (element ''code'')"

definition fenced_code_rule :: "string \<Rightarrow> string" where
  "fenced_code_rule =
     span_rule (replicate 3 (CHR 0x60)) (\<lambda>c. True) (replicate 3 (CHR 0x60)) code_region"

text \<open>The rules in the order of the specification, the first to be applied first.\<close>

definition markdown_rules :: "(string \<Rightarrow> string) list" where
  "markdown_rules =
     [map_lines (wrap_line ''### '' ''<h3>'' ''</h3>''),
      map_lines (wrap_line ''## '' ''<h2>'' ''</h2>''),
      map_lines (wrap_line ''# '' ''<h1>'' ''</h1>''),
      bold_rule, italic_rule, inline_code_rule, fenced_code_rule,
      map_lines (wrap_line ''- '' ''<ul><li>'' ''</li></ul>'')]"

text \<open>The lines of a text: what the line terminators separate.\<close>

fun js_lines :: "string \<Rightarrow> string list" where
  "js_lines [] = [[]]"
| "js_lines (c # cs) =
     (if is_line_terminator c then [] # js_lines cs
      else (case js_lines cs of [] \<Rightarrow> [[c]] | l # ls \<Rightarrow> (c # l) # ls))"

text \<open>
  HTML that is safe: a text made of characters other than \<^verbatim>\<open><\<close>, \<^verbatim>\<open>>\<close> and \<^verbatim>\<open>&\<close>, of
  the five entities that \<^verbatim>\<open>escapeHtml\<close> writes and of the tags that the renderer writes.
  The text is read from the left; the state of the reader is the part of an entity or tag
  read so far, empty between two of them.
\<close>

definition html_entities :: "string list" where
  "html_entities = [''&amp;'', ''&lt;'', ''&gt;'', ''&quot;'', ''&#039;'']"

definition renderer_tags :: "string list" where
  "renderer_tags =
     [''<h3>'', ''</h3>'', ''<h2>'', ''</h2>'', ''<h1>'', ''</h1>'',
      ''<strong>'', ''</strong>'', ''<em>'', ''</em>'', ''<code>'', ''</code>'',
      ''<ul>'', ''<li>'', ''</li>'', ''</ul>'']"

definition markup_tokens :: "string list" where
  "markup_tokens = html_entities @ renderer_tags"

definition lex_step :: "string \<Rightarrow> char \<Rightarrow> string option" where
  "lex_step p c =
     (if p @ [c] \<in> set markup_tokens then Some []
      else if list_ex (prefix (p @ [c])) markup_tokens then Some (p @ [c])
      else if p = [] \<and> c \<notin> set ''<>&'' then Some []
      else None)"

fun lex_run :: "string \<Rightarrow> string \<Rightarrow> string option" where
  "lex_run p [] = Some p"
| "lex_run p (c # cs) = (case lex_step p c of None \<Rightarrow> None | Some p' \<Rightarrow> lex_run p' cs)"

definition html_safe :: "string \<Rightarrow> bool" where
  "html_safe t = (lex_run [] t = Some [])"

section \<open>Auxiliary notions of the proofs\<close>

text \<open>The expression matches at no position of the text.\<close>

fun no_match :: "matcher \<Rightarrow> bool \<Rightarrow> string \<Rightarrow> bool" where
  "no_match m bol [] = (m bol [] = None)"
| "no_match m bol (c # cs) = (m bol (c # cs) = None \<and> no_match m (is_line_terminator c) cs)"

text \<open>The characters of the entities, and the escaped text of a string.\<close>

definition entity_chars :: "char set" where
  "entity_chars = set ''&amp;lt;gt;quot;#039;''"

abbreviation escape :: "string \<Rightarrow> string" where
  "escape s \<equiv> concat (map escaped_char s)"

text \<open>Two backticks side by side, and the characters of entities and tags.\<close>

fun adjacent_backticks :: "string \<Rightarrow> bool" where
  "adjacent_backticks (c # d # cs) = ((c = CHR 0x60 \<and> d = CHR 0x60) \<or> adjacent_backticks (d # cs))"
| "adjacent_backticks cs = False"

definition token_chars :: "char set" where
  "token_chars = (\<Union>t \<in> set markup_tokens. set t)"

text \<open>What the guard of a send depends on, and the log of requests.\<close>

definition controls :: "app_state \<Rightarrow> request list \<times> string option \<times> string list \<times> string \<times> string" where
  "controls st = (requests st, selectedModel st, alerts st, userInput st, currentChatId st)"



section \<open>Examples\<close>

text \<open>
  The page after loading, as \<^verbatim>\<open>DOMContentLoaded\<close> leaves it (a first chat, here with the
  identifier \<open>c1\<close>, and the model of the selector, here \<open>m1\<close>), with a prompt typed.
\<close>

definition empty_page :: app_state where
  "empty_page =
     \<lparr>chats = [], currentChatId = [], selectedModel = None, userInput = [],
      chatWindow = [], alerts = [], requests = []\<rparr>"

definition loaded_page :: "string \<Rightarrow> app_state" where
  "loaded_page typed =
     (createNewChat (\<lambda>x. x) (Some ''Chat 1'') None ''c1'' empty_page)
       \<lparr>selectedModel := Some ''m1'', userInput := typed\<rparr>"

text \<open>
  The stream of the end-to-end scenario 1, each event in a chunk of its own, and a decoder
  for chunks that are text already.
\<close>

definition scenario1 :: "string read_event list" where
  "scenario1 =
     [Chunk (''data: Hi'' @ [LF, LF]),
      Chunk (''data:  there'' @ [LF, LF]),
      Chunk (''data: [DONE]'' @ [LF, LF])]"

definition text_chunks :: "unit \<Rightarrow> string \<Rightarrow> string \<times> unit" where
  "text_chunks d v = (v, d)"



section \<open>Properties of escapeHtml\<close>

lemma replace_class_escape: "replace_class escape_class entity_of s = concat (map escaped_char s)"
  by (induction s) (auto simp: escape_class_def entity_of_def entity_table_def escaped_char_def)

lemma escapeHtml_Str: "escapeHtml (Str s) = concat (map escaped_char s)"
  by (simp add: escapeHtml_def or_empty_def replace_class_escape)

text \<open>
  C10. \<^verbatim>\<open>escapeHtml\<close> returns a string for every value it can be given: the empty string
  for \<^verbatim>\<open>null\<close> and \<^verbatim>\<open>undefined\<close>, and for a string the string in which the characters
  \<^verbatim>\<open>& < > " '\<close> are replaced by their entities and every other character is kept.
\<close>

theorem escapeHtml_total:
  "escapeHtml Null = [] \<and> escapeHtml Undefined = [] \<and>
   escapeHtml (Str s) = concat (map escaped_char s)"
  by (simp add: escapeHtml_Str) (simp add: escapeHtml_def or_empty_def)

section \<open>The conversation store and the guards of sendMessage\<close>

lemma map_of_update: "map_of (AList.update k v al) k' = (if k' = k then Some v else map_of al k')"
  by (simp add: update_conv')

lemma keys_update: "map_of al k = Some c \<Longrightarrow> map fst (AList.update k v al) = map fst al"
  by (induction al) (auto split: if_splits)

lemma keys_update_value: "map fst (AList.update k v al) = map fst (AList.update k v' al)"
  by (induction al) auto

lemma length_update_ge: "length al \<le> length (AList.update k v al)"
  by (induction al) auto

lemma fold_addMessage_keeps:
  "chats (fold (\<lambda>qa s. addMessageToChat marked a (f qa) (addMessageToChat marked b (g qa) s)) xs st) = chats st
   \<and> currentChatId (fold (\<lambda>qa s. addMessageToChat marked a (f qa) (addMessageToChat marked b (g qa) s)) xs st) = currentChatId st
   \<and> selectedModel (fold (\<lambda>qa s. addMessageToChat marked a (f qa) (addMessageToChat marked b (g qa) s)) xs st) = selectedModel st
   \<and> userInput (fold (\<lambda>qa s. addMessageToChat marked a (f qa) (addMessageToChat marked b (g qa) s)) xs st) = userInput st
   \<and> alerts (fold (\<lambda>qa s. addMessageToChat marked a (f qa) (addMessageToChat marked b (g qa) s)) xs st) = alerts st
   \<and> requests (fold (\<lambda>qa s. addMessageToChat marked a (f qa) (addMessageToChat marked b (g qa) s)) xs st) = requests st"
  by (induction xs arbitrary: st) (simp_all add: addMessageToChat_def)

lemma renderMessages_keeps [simp]:
  "chats (renderMessages marked st) = chats st"
  "currentChatId (renderMessages marked st) = currentChatId st"
  "selectedModel (renderMessages marked st) = selectedModel st"
  "userInput (renderMessages marked st) = userInput st"
  "alerts (renderMessages marked st) = alerts st"
  "requests (renderMessages marked st) = requests st"
  by (simp_all add: renderMessages_def fold_addMessage_keeps split: option.splits)

lemma set_stream_content_keeps [simp]:
  "chats (set_stream_content el h st) = chats st"
  "currentChatId (set_stream_content el h st) = currentChatId st"
  "selectedModel (set_stream_content el h st) = selectedModel st"
  "userInput (set_stream_content el h st) = userInput st"
  "alerts (set_stream_content el h st) = alerts st"
  "requests (set_stream_content el h st) = requests st"
  by (simp_all add: set_stream_content_def split: node.splits)

lemma set_rawPre_keeps [simp]:
  "chats (set_rawPre el h st) = chats st"
  "currentChatId (set_rawPre el h st) = currentChatId st"
  "selectedModel (set_rawPre el h st) = selectedModel st"
  "userInput (set_rawPre el h st) = userInput st"
  "alerts (set_rawPre el h st) = alerts st"
  "requests (set_rawPre el h st) = requests st"
  by (simp_all add: set_rawPre_def split: node.splits)

lemma appendExchange_messages:
  "messages_of (appendExchange q st) (currentChatId st) =
     messages_of st (currentChatId st) @ [\<lparr>question = q, answer = []\<rparr>]"
  by (simp add: appendExchange_def messages_of_def map_of_update Let_def split: option.splits)

lemma appendExchange_keeps [simp]:
  "currentChatId (appendExchange q st) = currentChatId st"
  "selectedModel (appendExchange q st) = selectedModel st"
  "userInput (appendExchange q st) = userInput st"
  "alerts (appendExchange q st) = alerts st"
  "requests (appendExchange q st) = requests st"
  "chatWindow (appendExchange q st) = chatWindow st"
  by (simp_all add: appendExchange_def Let_def)

lemma appendExchange_others:
  "cid \<noteq> currentChatId st \<Longrightarrow> map_of (chats (appendExchange q st)) cid = map_of (chats st) cid"
  by (simp add: appendExchange_def map_of_update Let_def)

lemma appendExchange_length: "length (chats st) \<le> length (chats (appendExchange q st))"
  by (simp add: appendExchange_def Let_def length_update_ge)

lemma createAssistant_simps [simp]:
  "fst (createAssistantMessageElements st) = length (chatWindow st)"
  "snd (createAssistantMessageElements st) = st\<lparr>chatWindow := chatWindow st @ [AssistantDiv [] True []]\<rparr>"
  by (simp_all add: createAssistantMessageElements_def)

lemma catch_stream_error_chats:
  assumes "map_of (chats st) (currentChatId st) = Some c" "messages c = ms @ [qa]"
  shows "chats (catch_stream_error el err st) =
           AList.update (currentChatId st) (c\<lparr>messages := ms @ [qa\<lparr>answer := ''Error: '' @ message err\<rparr>]\<rparr>) (chats st)"
    and "currentChatId (catch_stream_error el err st) = currentChatId st"
    and "selectedModel (catch_stream_error el err st) = selectedModel st"
    and "requests (catch_stream_error el err st) = requests st"
    and "alerts (catch_stream_error el err st) = alerts st"
    and "userInput (catch_stream_error el err st) = userInput st"
  using assms by (simp_all add: catch_stream_error_def Let_def)

lemma loaded_page_eq:
  "loaded_page typed =
     \<lparr>chats = [(''c1'', \<lparr>name = ''Chat 1'', messages = []\<rparr>)], currentChatId = ''c1'',
      selectedModel = Some ''m1'', userInput = typed, chatWindow = [], alerts = [],
      requests = []\<rparr>"
  by (simp add: loaded_page_def empty_page_def createNewChat_def renderMessages_def)

lemma trim_Hello: "trim ''Hello'' = ''Hello''"
  by (simp add: trim_def is_white_space_def is_line_terminator_def)

text \<open>
  C6, as amended. A send with an empty trimmed prompt or with no model selected sends no
  request and leaves the store, the input and the window as they are. The main client shows
  the alert when the prompt is not empty (and so the model is missing) and nothing for an
  empty prompt; the minimal client shows it whenever the model is missing. The alert is the
  only change of the state.
\<close>

theorem sendMessage_rejected:
  assumes "trim (userInput st) = [] \<or> no_model (selectedModel st)"
  shows "sendMessage dec d0 marked net st =
           (if trim (userInput st) = [] then st else no_model_alert st) \<and>
         sendMessage_min dec' d0' net' st =
           (if no_model (selectedModel st) then no_model_alert st else st) \<and>
         requests (no_model_alert st) = requests st \<and>
         chats (no_model_alert st) = chats st \<and>
         currentChatId (no_model_alert st) = currentChatId st \<and>
         selectedModel (no_model_alert st) = selectedModel st \<and>
         userInput (no_model_alert st) = userInput st \<and>
         chatWindow (no_model_alert st) = chatWindow st \<and>
         alerts (no_model_alert st) = alerts st @ [''Please select a model first'']"
  using assms
  by (auto simp: sendMessage_def sendMessage_min_def no_model_def no_model_alert_def Let_def
      split: option.splits)

theorem sendMessage_rejected_witness:
  "no_model (selectedModel ((loaded_page ''Hello'')\<lparr>selectedModel := None\<rparr>)) \<and>
   sendMessage (\<lambda>d v. (v, d)) () (\<lambda>x. x) (Response True ''OK'' [Chunk ''data: Hi''])
       ((loaded_page ''Hello'')\<lparr>selectedModel := None\<rparr>) =
     (loaded_page ''Hello'')\<lparr>selectedModel := None, alerts := [''Please select a model first'']\<rparr>"
  using sendMessage_rejected [of "(loaded_page ''Hello'')\<lparr>selectedModel := None\<rparr>"
      "\<lambda>d v. (v, d)" "()" "\<lambda>x. x" "Response True ''OK'' [Chunk ''data: Hi'']"
      "\<lambda>d v. (v, d)" "()" "Response True ''OK'' [Chunk ''data: Hi'']"]
  by (simp add: no_model_def loaded_page_eq trim_Hello no_model_alert_def)

text \<open>
  The claim C6 as it stands fails: with a model selected and a prompt of blanks only, the
  send is rejected and no alert is shown, in either client.
\<close>

theorem sendMessage_silent_counterexample:
  "trim (userInput (loaded_page ''  '')) = [] \<and>
   alerts (sendMessage (\<lambda>d v. (v, d)) () (\<lambda>x. x) (Response True ''OK'' [Chunk ''data: Hi''])
             (loaded_page ''  '')) = [] \<and>
   alerts (sendMessage_min (\<lambda>d v. (v, d)) () (Response True ''OK'' [Chunk ''data: Hi''])
             (loaded_page ''  '')) = []"
  by (simp add: sendMessage_def sendMessage_min_def loaded_page_eq trim_def is_white_space_def
      is_line_terminator_def)

lemma controls_simps [simp]:
  "controls (set_rawPre el x st) = controls st"
  "controls (set_stream_content el x st) = controls st"
  "controls (remove_cursor st) = controls st"
  "controls (append_answer cid ci x st) = controls st"
  by (simp_all add: controls_def remove_cursor_def append_answer_def split: option.splits)

lemma on_payload_controls:
  "on_payload marked el ci data (r, s) = Inr (r', s') \<Longrightarrow> controls s' = controls s"
  "on_payload marked el ci data (r, s) = Inl (e, s') \<Longrightarrow> controls s' = controls s"
  by (auto simp: Let_def split: option.splits)

lemma for_lines_controls:
  "(for_lines marked el ci ls (r, s) = Inr (r', s') \<longrightarrow> controls s' = controls s) \<and>
   (for_lines marked el ci ls (r, s) = Inl (e, s') \<longrightarrow> controls s' = controls s)"
proof (induction ls arbitrary: r s)
  case Nil
  then show ?case by simp
next
  case (Cons l ls)
  show ?case
  proof (cases "on_payload marked el ci (trim (replace_first ''data: '' [] l)) (r, s)")
    case (Inl a)
    then show ?thesis using Cons on_payload_controls(2)[of marked el ci _ r s]
      by (cases a) (auto simp: Let_def)
  next
    case (Inr b)
    then show ?thesis using Cons on_payload_controls(1)[of marked el ci _ r s]
      by (cases b) (auto simp: Let_def)
  qed
qed

lemma read_loop_controls:
  "(read_loop dec marked el ci reads d p (r, s) = Inr (r', s') \<longrightarrow> controls s' = controls s) \<and>
   (read_loop dec marked el ci reads d p (r, s) = Inl (e, s') \<longrightarrow> controls s' = controls s)"
proof (induction reads arbitrary: d p r s)
  case Nil
  then show ?case by simp
next
  case (Cons ev reads)
  show ?case
  proof (cases ev)
    case (ReadError msg)
    then show ?thesis by simp
  next
    case (Chunk v)
    obtain chunk d' where dec: "dec d v = (chunk, d')" by (cases "dec d v")
    show ?thesis
    proof (cases "for_lines marked el ci (butlast (split_lines (p @ chunk))) (r, s)")
      case (Inl a)
      then show ?thesis using for_lines_controls[of marked el ci _ r s] Chunk dec
        by (cases a) (auto simp: Let_def)
    next
      case (Inr b)
      obtain r1 s1 where b: "b = (r1, s1)" by (cases b)
      have "controls s1 = controls s" using for_lines_controls[of marked el ci _ r s r1 s1] Inr b by simp
      then show ?thesis using Cons[of d' "last (split_lines (p @ chunk))" r1 s1] Chunk dec Inr b
        by (simp add: Let_def)
    qed
  qed
qed

lemma processStreamResponse_controls:
  "(processStreamResponse dec d0 marked body el st = Inr s' \<longrightarrow> controls s' = controls st) \<and>
   (processStreamResponse dec d0 marked body el st = Inl (e, s') \<longrightarrow> controls s' = controls st)"
  using read_loop_controls[of dec marked el _ body d0 "[]" "[]" st]
  by (auto simp: processStreamResponse_def split: option.splits sum.splits)

lemma catch_stream_error_controls: "controls (catch_stream_error el err st) = controls st"
  by (simp add: catch_stream_error_def controls_def Let_def split: option.splits)

lemma processStreamResponse_controls_Inr:
  "processStreamResponse dec d0 marked body el st = Inr s' \<Longrightarrow> controls s' = controls st"
  using processStreamResponse_controls[where dec = dec and ?d0.0 = d0 and marked = marked
      and body = body and el = el and st = st and s' = s'] by simp

lemma processStreamResponse_controls_Inl:
  "processStreamResponse dec d0 marked body el st = Inl (e, s') \<Longrightarrow> controls s' = controls st"
  using processStreamResponse_controls[where dec = dec and ?d0.0 = d0 and marked = marked
      and body = body and el = el and st = st and s' = s' and e = e] by simp

lemma send_request_controls:
  "controls (send_request dec d0 marked net p m st) =
     (requests st @ [StreamChat p m (Some (currentChatId st))], selectedModel st, alerts st, [],
      currentChatId st)"
proof (cases net)
  case (NetworkError msg)
  then show ?thesis
    by (simp add: send_request_def Let_def createAssistantMessageElements_def
        catch_stream_error_controls)
      (simp add: controls_def addMessageToChat_def)
next
  case (Response ok statusText body)
  show ?thesis
  proof (cases ok)
    case False
    then show ?thesis using Response
      by (simp add: send_request_def Let_def createAssistantMessageElements_def
          catch_stream_error_controls)
        (simp add: controls_def addMessageToChat_def)
  next
    case True
    then show ?thesis using Response
      by (auto simp: send_request_def Let_def createAssistantMessageElements_def
          catch_stream_error_controls split: sum.splits
          dest!: processStreamResponse_controls_Inr processStreamResponse_controls_Inl)
        (simp_all add: controls_def addMessageToChat_def)
  qed
qed

text \<open>
  C7. When the request to \<^verbatim>\<open>/stream_chat\<close> fails (the \<^verbatim>\<open>fetch\<close> rejects, or the status
  is not 2xx), the main client stores \<^verbatim>\<open>Error: \<close> and the message as the answer of the
  exchange it has just pushed; the active chat keeps its earlier exchanges, every other chat
  is as before and no entry of the store is lost; exactly one request was sent (no retry);
  and \<^verbatim>\<open>sendMessage\<close> returns, with the model still selected and the input box empty, and
  the page takes the next prompt: whatever is typed then (and is not blank) is sent. The
  minimal client, which has no store, appends the error as a message of the window.
\<close>

theorem stream_failure:
  assumes prompt: "trim (userInput st) \<noteq> []"
      and model: "selectedModel st = Some m" "m \<noteq> []"
      and net: "net = NetworkError msg \<or> net = Response False msg body"
  shows "let st' = sendMessage dec d0 marked net st in
      currentChatId st' = currentChatId st \<and>
      messages_of st' (currentChatId st) =
        messages_of st (currentChatId st) @
          [\<lparr>question = trim (userInput st), answer = ''Error: '' @ msg\<rparr>] \<and>
      (\<forall>cid. cid \<noteq> currentChatId st \<longrightarrow> map_of (chats st') cid = map_of (chats st) cid) \<and>
      length (chats st) \<le> length (chats st') \<and>
      requests st' = requests st @ [StreamChat (trim (userInput st)) m (Some (currentChatId st))] \<and>
      selectedModel st' = selectedModel st \<and> alerts st' = alerts st \<and> userInput st' = [] \<and>
      (\<forall>typed net'. trim typed \<noteq> [] \<longrightarrow>
         requests (sendMessage dec d0 marked net' (st'\<lparr>userInput := typed\<rparr>)) =
           requests st' @ [StreamChat (trim typed) m (Some (currentChatId st))]) \<and>
      sendMessage_min dec' d0' net st =
        st\<lparr>userInput := [],
           chatWindow := chatWindow st @
             [MessageDiv ''message user ''
                (InnerHTML (formatMarkdown (escapeHtml (Str (trim (userInput st)))))),
              AssistantDiv [] True [],
              MessageDiv ''message error'' (TextContent (''Error: '' @ msg))],
           requests := requests st @ [StreamChat (trim (userInput st)) m None]\<rparr>"
proof -
  define p where "p = trim (userInput st)"
  define st1 where "st1 = appendExchange p st"
  define st5 where "st5 = (snd (createAssistantMessageElements ((addMessageToChat marked ''user'' p st1)\<lparr>userInput := []\<rparr>)))\<lparr>requests := requests st @ [StreamChat p m (Some (currentChatId st))]\<rparr>"
  define el where "el = length (chatWindow (addMessageToChat marked ''user'' p st1))"
  obtain c where c: "map_of (chats st1) (currentChatId st) = Some c"
      "messages c = messages_of st (currentChatId st) @ [\<lparr>question = p, answer = []\<rparr>]"
    by (auto simp: st1_def appendExchange_def messages_of_def map_of_update Let_def split: option.splits)
  have st5: "chats st5 = chats st1" "currentChatId st5 = currentChatId st" "selectedModel st5 = selectedModel st"
     "alerts st5 = alerts st" "userInput st5 = []"
     "requests st5 = requests st @ [StreamChat p m (Some (currentChatId st))]"
    by (simp_all add: st5_def st1_def addMessageToChat_def)
  have send: "sendMessage dec d0 marked net st = catch_stream_error el (Failure msg) st5"
    using prompt model net
    by (auto simp: sendMessage_def send_request_def Let_def p_def st5_def st1_def el_def
        createAssistantMessageElements_def addMessageToChat_def)
  have c5: "map_of (chats st5) (currentChatId st5) = Some c" using c st5 by simp
  note E = catch_stream_error_chats[OF c5 c(2), of el "Failure msg"]
  have len: "length (chats st) \<le> length (chats st1)"
    unfolding st1_def by (rule appendExchange_length)
  have minimal: "sendMessage_min dec' d0' net st =
        st\<lparr>userInput := [],
           chatWindow := chatWindow st @
             [MessageDiv ''message user '' (InnerHTML (formatMarkdown (escapeHtml (Str p)))),
              AssistantDiv [] True [],
              MessageDiv ''message error'' (TextContent (''Error: '' @ msg))],
           requests := requests st @ [StreamChat p m None]\<rparr>"
    using prompt model net
    by (auto simp: sendMessage_min_def send_request_min_def Let_def p_def
        createAssistantMessageElements_def addMessageToChat_min_def handleStreamError_def)
  have again: "requests (sendMessage dec d0 marked net' (S\<lparr>userInput := typed\<rparr>)) =
      requests S @ [StreamChat (trim typed) m (Some (currentChatId S))]"
    if "trim typed \<noteq> []" "selectedModel S = Some m" for S typed net'
    using that model(2)
      send_request_controls[where dec = dec and ?d0.0 = d0 and marked = marked and net = net'
        and p = "trim typed" and m = m and st = "S\<lparr>userInput := typed\<rparr>"]
    by (simp add: sendMessage_def controls_def)
  have sel: "selectedModel (catch_stream_error el (Failure msg) st5) = Some m"
      "currentChatId (catch_stream_error el (Failure msg) st5) = currentChatId st"
    using E st5 model by simp_all
  show ?thesis
    unfolding Let_def send minimal p_def[symmetric]
    using c st5 len again[OF _ sel(1)] sel(2)
    by (simp add: E messages_of_def map_of_update st1_def appendExchange_others
        order_trans[OF _ length_update_ge])
qed

theorem stream_failure_witness:
  "(let st' = sendMessage (\<lambda>d v. (v, d)) () (\<lambda>x. x)
                (Response False ''INTERNAL SERVER ERROR'' ([] :: string read_event list))
                (loaded_page ''Hello'')
    in messages_of st' ''c1'' =
         [\<lparr>question = ''Hello'', answer = ''Error: INTERNAL SERVER ERROR''\<rparr>] \<and>
       length (chats st') = 1 \<and>
       requests st' = [StreamChat ''Hello'' ''m1'' (Some ''c1'')] \<and>
       selectedModel st' = Some ''m1'')"
proof -
  have len: "length (chats (sendMessage (\<lambda>d v. (v, d)) () (\<lambda>x. x)
                (Response False ''INTERNAL SERVER ERROR'' ([] :: string read_event list))
                (loaded_page ''Hello''))) = 1"
    by (simp add: sendMessage_def send_request_def loaded_page_eq trim_Hello Let_def
        appendExchange_def addMessageToChat_def createAssistantMessageElements_def
        catch_stream_error_def set_stream_content_def get_stream_content_def)
  show ?thesis
    using len stream_failure [where st = "loaded_page ''Hello''" and m = "''m1''"
        and net = "Response False ''INTERNAL SERVER ERROR'' ([] :: string read_event list)"
        and msg = "''INTERNAL SERVER ERROR''" and body = "[]"
        and dec = "\<lambda>d v. (v, d)" and ?d0.0 = "()" and marked = "\<lambda>x. x"
        and dec' = "\<lambda>d v. (v, d)" and d0' = "()"]
    by (simp add: Let_def loaded_page_eq trim_Hello messages_of_def)
qed

text \<open>
  C8. A chat that is created is the active one and has no messages; appending an exchange
  with the question \<open>q\<close> and an empty answer adds exactly that exchange to the active chat
  (one message more); the reset of a chat of the store leaves it with no messages, with its
  name, the identifiers of the store and the active chat unchanged, and this is what the
  Reset button does to the store when the server acknowledges.
\<close>

theorem conversation_store:
  "(nm \<noteq> [] \<longrightarrow>
      currentChatId (createNewChat marked (Some nm) asked uuid st) = uuid \<and>
      map_of (chats (createNewChat marked (Some nm) asked uuid st)) uuid =
        Some \<lparr>name = nm, messages = []\<rparr>) \<and>
   currentChatId (appendExchange q st) = currentChatId st \<and>
   messages_of (appendExchange q st) (currentChatId st) =
     messages_of st (currentChatId st) @ [\<lparr>question = q, answer = []\<rparr>] \<and>
   length (messages_of (appendExchange q st) (currentChatId st)) =
     length (messages_of st (currentChatId st)) + 1 \<and>
   (map_of (chats st) cid = Some c \<longrightarrow>
      (\<exists>st'. resetChat cid st = Some st' \<and>
         map_of (chats st') cid = Some (c\<lparr>messages := []\<rparr>) \<and>
         messages_of st' cid = [] \<and>
         map fst (chats st') = map fst (chats st) \<and>
         currentChatId st' = currentChatId st \<and>
         chats (reset_click marked (ResetReplied True err) cid st) = chats st'))"
proof -
  have create: "nm \<noteq> [] \<longrightarrow>
      currentChatId (createNewChat marked (Some nm) asked uuid st) = uuid \<and>
      map_of (chats (createNewChat marked (Some nm) asked uuid st)) uuid =
        Some \<lparr>name = nm, messages = []\<rparr>"
    by (simp add: createNewChat_def map_of_update)
  have reset: "map_of (chats st) cid = Some c \<longrightarrow>
      (\<exists>st'. resetChat cid st = Some st' \<and>
         map_of (chats st') cid = Some (c\<lparr>messages := []\<rparr>) \<and>
         messages_of st' cid = [] \<and>
         map fst (chats st') = map fst (chats st) \<and>
         currentChatId st' = currentChatId st \<and>
         chats (reset_click marked (ResetReplied True err) cid st) = chats st')"
    by (simp add: resetChat_def reset_click_def messages_of_def map_of_update keys_update)
  show ?thesis
    using create reset by (simp add: appendExchange_messages)
qed

theorem conversation_store_witness:
  "(let st1 = createNewChat (\<lambda>x. x) (Some ''Chat 1'') None ''c1'' empty_page;
        st2 = appendExchange ''Hello'' st1
    in currentChatId st1 = ''c1'' \<and> messages_of st1 ''c1'' = [] \<and>
       messages_of st2 ''c1'' = [\<lparr>question = ''Hello'', answer = []\<rparr>] \<and>
       (\<exists>st3. resetChat ''c1'' st2 = Some st3 \<and> messages_of st3 ''c1'' = [] \<and>
          map_of (chats st3) ''c1'' = Some \<lparr>name = ''Chat 1'', messages = []\<rparr> \<and>
          map fst (chats st3) = [''c1''] \<and> currentChatId st3 = ''c1''))"
proof -
  define st1 where "st1 = createNewChat (\<lambda>x. x) (Some ''Chat 1'') None ''c1'' empty_page"
  define st2 where "st2 = appendExchange ''Hello'' st1"
  define c2 where "c2 = \<lparr>name = ''Chat 1'', messages = [\<lparr>question = ''Hello'', answer = []\<rparr>]\<rparr>"
  have st1: "currentChatId st1 = ''c1''"
      "map_of (chats st1) ''c1'' = Some \<lparr>name = ''Chat 1'', messages = []\<rparr>"
    using conversation_store [where nm = "''Chat 1''" and marked = "\<lambda>x. x" and asked = None
        and uuid = "''c1''" and st = empty_page and q = "[]" and cid = "[]" and c = c2
        and err = None]
    by (simp_all add: st1_def)
  have st2: "messages_of st2 ''c1'' = [\<lparr>question = ''Hello'', answer = []\<rparr>]"
      "currentChatId st2 = ''c1''"
    using conversation_store [where nm = "''Chat 1''" and marked = "\<lambda>x. x" and asked = None
        and uuid = "''c1''" and st = st1 and q = "''Hello''" and cid = "[]" and c = c2
        and err = None] st1
    by (simp_all add: st2_def messages_of_def)
  have c2: "map_of (chats st2) ''c1'' = Some c2" "map fst (chats st2) = [''c1'']"
    by (simp_all add: st2_def st1_def c2_def appendExchange_def createNewChat_def
        empty_page_def renderMessages_def)
  have "\<exists>st3. resetChat ''c1'' st2 = Some st3 \<and> messages_of st3 ''c1'' = [] \<and>
          map_of (chats st3) ''c1'' = Some \<lparr>name = ''Chat 1'', messages = []\<rparr> \<and>
          map fst (chats st3) = [''c1''] \<and> currentChatId st3 = ''c1''"
    using conversation_store [where nm = "''Chat 1''" and marked = "\<lambda>x. x" and asked = None
        and uuid = "''c1''" and st = st2 and q = "''Hello''" and cid = "''c1''" and c = c2
        and err = None] c2 st2(2)
    by (auto simp: c2_def)
  then show ?thesis
    unfolding Let_def st1_def[symmetric] st2_def[symmetric]
    using st1 st2 by (simp add: messages_of_def)
qed

section \<open>The end-to-end scenario and the sentinel\<close>

text \<open>
  C5, as amended. After the prompt \<open>Hello\<close> is sent with the model \<open>m1\<close> and the server
  streams \<^verbatim>\<open>data: Hi\<close>, \<^verbatim>\<open>data:  there\<close> and \<^verbatim>\<open>data: [DONE]\<close>, each followed by a blank line,
  the stored answer and the raw text are the two payloads, trimmed, each followed by a line
  feed; the main client renders \<^verbatim>\<open>marked.parse\<close> of that answer and the minimal client the
  text itself; the streaming cursor is removed.
\<close>

theorem scenario1_answer:
  "sendMessage text_chunks () marked (Response True ''OK'' scenario1) (loaded_page ''Hello'') =
     \<lparr>chats = [(''c1'', \<lparr>name = ''Chat 1'',
                 messages = [\<lparr>question = ''Hello'', answer = ''Hi'' @ [LF] @ ''there'' @ [LF]\<rparr>]\<rparr>)],
      currentChatId = ''c1'', selectedModel = Some ''m1'', userInput = [],
      chatWindow =
        [MessageDiv ''message user'' (TextContent ''Hello''),
         AssistantDiv (marked (''Hi'' @ [LF] @ ''there'' @ [LF])) False
           (''Hi'' @ [LF] @ ''there'' @ [LF])],
      alerts = [], requests = [StreamChat ''Hello'' ''m1'' (Some ''c1'')]\<rparr> \<and>
   sendMessage_min text_chunks () (Response True ''OK'' scenario1) (loaded_page ''Hello'') =
     \<lparr>chats = [(''c1'', \<lparr>name = ''Chat 1'', messages = []\<rparr>)],
      currentChatId = ''c1'', selectedModel = Some ''m1'', userInput = [],
      chatWindow =
        [MessageDiv ''message user '' (InnerHTML ''Hello''),
         AssistantDiv (''Hi'' @ [LF] @ ''there'' @ [LF]) False (''Hi'' @ [LF] @ ''there'' @ [LF])],
      alerts = [], requests = [StreamChat ''Hello'' ''m1'' None]\<rparr>"
  by code_simp

text \<open>
  The claim C5 as it stands fails: the answer that is stored, and the HTML that the minimal
  client renders, are not \<open>Hi there\<close>; the payloads are trimmed and joined by line feeds.
\<close>

theorem scenario1_counterexample:
  "messages_of (sendMessage text_chunks () (\<lambda>x. x) (Response True ''OK'' scenario1)
       (loaded_page ''Hello'')) ''c1'' \<noteq> [\<lparr>question = ''Hello'', answer = ''Hi there''\<rparr>] \<and>
   chatWindow (sendMessage_min text_chunks () (Response True ''OK'' scenario1)
       (loaded_page ''Hello'')) ! 1 \<noteq> AssistantDiv ''Hi there'' False ''Hi there''"
  by code_simp

text \<open>
  C4 does not hold of the code. A line behind \<^verbatim>\<open>data: [DONE]\<close> in the same chunk is skipped,
  but the \<^verbatim>\<open>break\<close> leaves the \<^verbatim>\<open>for\<close> loop only: the same line in the next chunk is
  appended to the answer and to the raw text and rendered, in both clients.
\<close>

theorem payload_after_done:
  "messages_of (sendMessage text_chunks () (\<lambda>x. x)
       (Response True ''OK'' [Chunk (''data: [DONE]'' @ [LF] @ ''data: late'' @ [LF])])
       (loaded_page ''Hello'')) ''c1'' = [\<lparr>question = ''Hello'', answer = []\<rparr>] \<and>
   messages_of (sendMessage text_chunks () (\<lambda>x. x)
       (Response True ''OK'' [Chunk (''data: [DONE]'' @ [LF]), Chunk (''data: late'' @ [LF])])
       (loaded_page ''Hello'')) ''c1'' = [\<lparr>question = ''Hello'', answer = ''late'' @ [LF]\<rparr>] \<and>
   chatWindow (sendMessage_min text_chunks ()
       (Response True ''OK'' [Chunk (''data: [DONE]'' @ [LF] @ ''data: late'' @ [LF])])
       (loaded_page ''Hello'')) ! 1 = AssistantDiv [] False [] \<and>
   chatWindow (sendMessage_min text_chunks ()
       (Response True ''OK'' [Chunk (''data: [DONE]'' @ [LF]), Chunk (''data: late'' @ [LF])])
       (loaded_page ''Hello'')) ! 1 = AssistantDiv (''late'' @ [LF]) False (''late'' @ [LF])"
  by code_simp

section \<open>The stream decoder\<close>


























lemma remove_cursor_keeps [simp]:
  "chats (remove_cursor st) = chats st"
  "currentChatId (remove_cursor st) = currentChatId st"
  by (simp_all add: remove_cursor_def)





section \<open>The Markdown renderer\<close>

lemma replace_all_Nil: "m bol [] = None \<Longrightarrow> replace_all m r bol [] = []"
  by (subst replace_all.simps) simp

lemma replace_all_None:
  "m bol (c # cs) = None \<Longrightarrow> replace_all m r bol (c # cs) = c # replace_all m r (is_line_terminator c) cs"
  by (subst replace_all.simps) simp

lemma replace_all_Some:
  "m bol s = Some (cap, rest) \<Longrightarrow> length rest < length s \<Longrightarrow>
   replace_all m r bol s =
     r cap @ replace_all m r (is_line_terminator (last (take (length s - length rest) s))) rest"
  by (subst replace_all.simps) simp

lemma line_matcher_False [simp]: "line_matcher mark False s = None"
  by (simp add: line_matcher_def)

lemma copy_line:
  "replace_all (line_matcher mark) r False s =
     takeWhile dot s @
     (case dropWhile dot s of [] \<Rightarrow> [] | c # cs \<Rightarrow> c # replace_all (line_matcher mark) r True cs)"
proof (induction s)
  case Nil
  then show ?case by (simp add: replace_all_Nil)
next
  case (Cons c cs)
  then show ?case by (simp add: replace_all_None dot_def)
qed

lemma prefix_takeWhile:
  "\<forall>c \<in> set mark. P c \<Longrightarrow> prefix mark (takeWhile P s) \<longleftrightarrow> prefix mark s"
proof (induction mark arbitrary: s)
  case Nil
  then show ?case by simp
next
  case (Cons m mark)
  then show ?case by (cases s) auto
qed

lemma takeWhile_after_mark:
  "\<forall>c \<in> set mark. P c \<Longrightarrow> prefix mark s \<Longrightarrow>
   takeWhile P s = mark @ takeWhile P (drop (length mark) s) \<and>
   dropWhile P s = dropWhile P (drop (length mark) s)"
  by (auto simp: prefix_def takeWhile_append2 dropWhile_append2)

lemma line_pass_lines:
  assumes mark: "mark \<noteq> []" "\<forall>c \<in> set mark. dot c"
  shows "replace_all (line_matcher mark) (wrap opening closing) True s =
           map_lines (wrap_line mark opening closing) s"
proof (induction "wrap_line mark opening closing" s rule: map_lines.induct)
  case (1 s)
  let ?m = "line_matcher mark" and ?r = "wrap opening closing"
  let ?f = "wrap_line mark opening closing"
  have tail: "(case dropWhile dot s of [] \<Rightarrow> [] | c # cs \<Rightarrow> c # replace_all ?m ?r True cs) =
      (case dropWhile dot s of [] \<Rightarrow> [] | c # cs \<Rightarrow> c # map_lines ?f cs)"
  proof (cases "dropWhile dot s")
    case Nil
    then show ?thesis by (simp only: list.case)
  next
    case (Cons c cs)
    from 1[OF Cons] show ?thesis unfolding Cons by (simp only: list.case)
  qed
  have ml: "map_lines ?f s = ?f (takeWhile dot s) @
      (case dropWhile dot s of [] \<Rightarrow> [] | c # cs \<Rightarrow> c # map_lines ?f cs)"
  proof (cases "dropWhile dot s")
    case Nil
    show ?thesis by (subst map_lines.simps) (simp only: Nil list.case append_Nil2)
  next
    case (Cons c cs)
    show ?thesis by (subst map_lines.simps) (simp only: Cons list.case)
  qed
  show ?case
  proof (cases "prefix mark s")
    case True
    define body where "body = drop (length mark) s"
    have s: "s = mark @ body" using True by (auto simp: body_def prefix_def)
    have tw: "takeWhile dot s = mark @ takeWhile dot body" "dropWhile dot s = dropWhile dot body"
      using takeWhile_after_mark[OF mark(2) True] by (simp_all add: body_def)
    have m: "?m True s = Some (takeWhile dot body, dropWhile dot body)"
      using True by (simp add: line_matcher_def body_def)
    have len: "length (dropWhile dot body) < length s"
    proof -
      obtain m ms where "mark = m # ms" using mark(1) by (cases mark) auto
      then have "length s = Suc (length ms + length body)" by (simp add: s)
      then show ?thesis using length_dropWhile_le[of dot body] by linarith
    qed
    have matched: "take (length s - length (dropWhile dot body)) s = mark @ takeWhile dot body"
    proof -
      have "s = (mark @ takeWhile dot body) @ dropWhile dot body" by (simp add: s)
      then show ?thesis by (metis add_diff_cancel_right' append_eq_conv_conj length_append)
    qed
    have notlt: "\<not> is_line_terminator (last (mark @ takeWhile dot body))"
    proof (cases "takeWhile dot body = []")
      case True
      then show ?thesis using mark by (simp add: dot_def)
    next
      case False
      then have "last (takeWhile dot body) \<in> set (takeWhile dot body)" by simp
      then have "dot (last (takeWhile dot body))" by (metis set_takeWhileD)
      then show ?thesis using False by (simp add: dot_def)
    qed
    have nodot: "takeWhile dot (dropWhile dot body) = []"
      by (metis (full_types) hd_dropWhile takeWhile.simps(1) takeWhile_eq_Nil_iff)
    have "replace_all ?m ?r True s = ?r (takeWhile dot body) @ replace_all ?m ?r False (dropWhile dot body)"
      using replace_all_Some[where m = "line_matcher mark" and bol = True and s = s
          and cap = "takeWhile dot body" and rest = "dropWhile dot body"
          and r = "wrap opening closing", OF m len] matched notlt
      by simp
    also have "\<dots> = ?r (takeWhile dot body) @
        (case dropWhile dot s of [] \<Rightarrow> [] | c # cs \<Rightarrow> c # replace_all ?m ?r True cs)"
      by (subst copy_line) (simp add: nodot tw)
    also have "?r (takeWhile dot body) = ?f (takeWhile dot s)"
      by (simp add: wrap_def wrap_line_def tw)
    finally show ?thesis unfolding tail ml .
  next
    case False
    then have m: "?m True s = None" by (simp add: line_matcher_def)
    have f: "?f (takeWhile dot s) = takeWhile dot s"
      using False prefix_takeWhile[OF mark(2), of s] by (simp add: wrap_line_def)
    show ?thesis
    proof (cases s)
      case Nil
      then show ?thesis using m f ml by (simp add: replace_all_Nil)
    next
      case (Cons c cs)
      have "replace_all ?m ?r True s = c # replace_all ?m ?r (is_line_terminator c) cs"
        using m by (simp add: Cons replace_all_None)
      also have "\<dots> = takeWhile dot s @
        (case dropWhile dot s of [] \<Rightarrow> [] | c # cs \<Rightarrow> c # replace_all ?m ?r True cs)"
        by (cases "is_line_terminator c") (simp_all add: Cons copy_line[of mark ?r cs] dot_def)
      finally show ?thesis unfolding tail ml f .
    qed
  qed
qed

text \<open>
  The code's replacements with a delimited expression are the rules for delimited text of the
  specification: the lazy quantifier stops at the first closing delimiter.
\<close>

lemma lazy_until_find:
  "lazy_until ok cls u =
     (case find_delim cls u of
        None \<Rightarrow> None
      | Some n \<Rightarrow> if list_all ok (take n u) then Some (take n u, drop (n + length cls) u) else None)"
proof (induction u)
  case Nil
  then show ?case by simp
next
  case (Cons c cs)
  then show ?case
    by (cases "find_delim cls cs") (auto simp del: Cons_prefix_Cons)
qed

lemma delim_pass_span:
  "opn \<noteq> [] \<Longrightarrow> replace_all (delim_matcher opn ok cls) r bol s = span_rule opn ok cls r s"
proof (induction opn ok cls r s arbitrary: bol rule: span_rule.induct)
  case (1 inside cls render s)
  then show ?case by simp
next
  case (2 d ds inside cls render)
  show ?case
    by (simp add: replace_all_Nil delim_matcher_def span_rule.simps)
next
  case (3 d ds inside cls render c cs)
  let ?m = "delim_matcher (d # ds) inside cls"
  let ?u = "drop (length ds) cs"
  show ?case
  proof (cases "prefix (d # ds) (c # cs)")
    case False
    then have m: "?m bol (c # cs) = None" by (simp add: delim_matcher_def del: Cons_prefix_Cons)
    have "replace_all ?m render bol (c # cs) = c # replace_all ?m render (is_line_terminator c) cs"
      using m by (rule replace_all_None)
    also have "\<dots> = c # span_rule (d # ds) inside cls render cs"
      using "3.IH"(1) False by (simp del: Cons_prefix_Cons)
    finally show ?thesis using False by (simp add: span_rule.simps del: Cons_prefix_Cons)
  next
    case True
    show ?thesis
    proof (cases "find_delim cls ?u")
      case None
      then have m: "?m bol (c # cs) = None"
        using True by (simp add: delim_matcher_def lazy_until_find del: Cons_prefix_Cons)
      have "replace_all ?m render bol (c # cs) = c # replace_all ?m render (is_line_terminator c) cs"
        using m by (rule replace_all_None)
      also have "\<dots> = c # span_rule (d # ds) inside cls render cs"
        using "3.IH"(1) True None by (simp del: Cons_prefix_Cons)
      finally show ?thesis using True None by (simp add: span_rule.simps del: Cons_prefix_Cons)
    next
      case (Some n)
      show ?thesis
      proof (cases "list_all inside (take n ?u)")
        case False
        then have m: "?m bol (c # cs) = None"
          using True Some by (simp add: delim_matcher_def lazy_until_find del: Cons_prefix_Cons)
        have "replace_all ?m render bol (c # cs) = c # replace_all ?m render (is_line_terminator c) cs"
          using m by (rule replace_all_None)
        also have "\<dots> = c # span_rule (d # ds) inside cls render cs"
          using "3.IH"(3) True Some False by (simp del: Cons_prefix_Cons)
        finally show ?thesis using True Some False by (simp add: span_rule.simps del: Cons_prefix_Cons)
      next
        case ok: True
        let ?rest = "drop (length ds + n + length cls) cs"
        have m: "?m bol (c # cs) = Some (take n ?u, ?rest)"
          using True Some ok by (simp add: delim_matcher_def lazy_until_find add.commute add.left_commute del: Cons_prefix_Cons)
        have len: "length ?rest < length (c # cs)" by simp
        have "replace_all ?m render bol (c # cs) =
            render (take n ?u) @
            replace_all ?m render
              (is_line_terminator (last (take (length (c # cs) - length ?rest) (c # cs)))) ?rest"
          using replace_all_Some[where m = ?m and bol = bol and s = "c # cs" and cap = "take n ?u"
              and rest = ?rest and r = render, OF m len] .
        also have "\<dots> = render (take n ?u) @ span_rule (d # ds) inside cls render ?rest"
          using "3.IH"(2) True Some ok by (simp del: Cons_prefix_Cons)
        finally show ?thesis using True Some ok by (simp add: span_rule.simps del: Cons_prefix_Cons)
      qed
    qed
  qed
qed

lemma wrap_element: "wrap (''<'' @ tag @ ''>'') (''</'' @ tag @ ''>'') = element tag"
  by (rule ext) (simp add: wrap_def element_def)

lemma code_block_region: "code_block = code_region"
  by (rule ext) (simp add: code_block_def code_region_def escapeHtml_Str)

lemma dot_within_line: "dot = within_line"
  by (rule ext) (simp add: dot_def within_line_def)

lemma dot_or_newline_line: "dot_or_newline = line_or_newline"
  by (rule ext) (simp add: dot_or_newline_def line_or_newline_def dot_within_line)

lemma any_char_True: "any_char = (\<lambda>c. True)"
  by (rule ext) (simp add: any_char_def)

lemma bold_pass_rule: "bold_pass t = bold_rule t"
  using wrap_element[of "''strong''"]
  by (simp add: bold_pass_def bold_rule_def delim_pass_span dot_within_line)

lemma italic_pass_rule: "italic_pass t = italic_rule t"
  using wrap_element[of "''em''"]
  by (simp add: italic_pass_def italic_rule_def delim_pass_span dot_within_line)

lemma code_pass_rule: "code_pass t = inline_code_rule t"
  using wrap_element[of "''code''"]
  by (simp add: code_pass_def inline_code_rule_def delim_pass_span dot_or_newline_line)

lemma fence_pass_rule: "fence_pass t = fenced_code_rule t"
  by (simp add: fence_pass_def fenced_code_rule_def delim_pass_span any_char_True code_block_region)

lemma heading_list_rules:
  "h3_pass t = map_lines (wrap_line ''### '' ''<h3>'' ''</h3>'') t"
  "h2_pass t = map_lines (wrap_line ''## '' ''<h2>'' ''</h2>'') t"
  "h1_pass t = map_lines (wrap_line ''# '' ''<h1>'' ''</h1>'') t"
  "list_pass t = map_lines (wrap_line ''- '' ''<ul><li>'' ''</li></ul>'') t"
  by (simp_all add: h3_pass_def h2_pass_def h1_pass_def list_pass_def line_pass_lines dot_def
      is_line_terminator_def)

text \<open>
  C3. \<^verbatim>\<open>formatMarkdown\<close> is its rules applied one after the other, each to the output of
  the one before: the headings of level 3, then 2, then 1, bold, italic, inline code, fenced
  code, and the list rule, which wraps each line that begins with \<^verbatim>\<open>- \<close> in a list of its
  own. Each replacement of the chain is the rule of the specification at its place: the
  heading and list replacements are the line by line rules, the four others are the rules for
  text between delimiters.
\<close>

theorem formatMarkdown_order:
  "formatMarkdown text = fold (\<lambda>rule t. rule t) markdown_rules text \<and>
   map (\<lambda>pass. pass text)
     [h3_pass, h2_pass, h1_pass, bold_pass, italic_pass, code_pass, fence_pass, list_pass] =
   map (\<lambda>rule. rule text) markdown_rules"
  by (simp add: formatMarkdown_def markdown_rules_def heading_list_rules bold_pass_rule
      italic_pass_rule code_pass_rule fence_pass_rule)

text \<open>
  A text with all the constructs. The bold rule comes before the italic one, so \<^verbatim>\<open>**a**\<close> is
  bold; the inline code rule comes before the fenced one, so it takes the backticks of the
  fence.
\<close>

theorem formatMarkdown_order_witness:
  "formatMarkdown
     (''### t'' @ [LF] @ ''## u'' @ [LF] @ ''# **a** *b* '' @ [CHR 0x60] @ ''c'' @ [CHR 0x60] @ [LF] @
      replicate 3 (CHR 0x60) @ ''d'' @ replicate 3 (CHR 0x60) @ [LF] @ ''- e'' @ [LF] @ ''- f'') =
   ''<h3>t</h3>'' @ [LF] @ ''<h2>u</h2>'' @ [LF] @
   ''<h1><strong>a</strong> <em>b</em> <code>c</code></h1>'' @ [LF] @
   ''<code></code><code>d</code><code></code>'' @ [LF] @
   ''<ul><li>e</li></ul>'' @ [LF] @ ''<ul><li>f</li></ul>''"
proof -
  have "fold (\<lambda>rule t. rule t) markdown_rules
     (''### t'' @ [LF] @ ''## u'' @ [LF] @ ''# **a** *b* '' @ [CHR 0x60] @ ''c'' @ [CHR 0x60] @ [LF] @
      replicate 3 (CHR 0x60) @ ''d'' @ replicate 3 (CHR 0x60) @ [LF] @ ''- e'' @ [LF] @ ''- f'') =
   ''<h3>t</h3>'' @ [LF] @ ''<h2>u</h2>'' @ [LF] @
   ''<h1><strong>a</strong> <em>b</em> <code>c</code></h1>'' @ [LF] @
   ''<code></code><code>d</code><code></code>'' @ [LF] @
   ''<ul><li>e</li></ul>'' @ [LF] @ ''<ul><li>f</li></ul>''"
    by code_simp
  then show ?thesis
    using formatMarkdown_order [of "''### t'' @ [LF] @ ''## u'' @ [LF] @ ''# **a** *b* '' @ [CHR 0x60] @ ''c'' @ [CHR 0x60] @ [LF] @
      replicate 3 (CHR 0x60) @ ''d'' @ replicate 3 (CHR 0x60) @ [LF] @ ''- e'' @ [LF] @ ''- f''"] by simp
qed

lemma replace_all_no_match: "no_match m bol t \<Longrightarrow> replace_all m r bol t = t"
  by (induction t arbitrary: bol) (simp_all add: replace_all_Nil replace_all_None)

lemma no_match_suffix:
  "(\<And>u b. suffix u t \<Longrightarrow> m b u = None) \<Longrightarrow> no_match m bol t"
proof (induction t arbitrary: bol)
  case Nil
  then show ?case by simp
next
  case (Cons c cs)
  have "no_match m (is_line_terminator c) cs"
    by (rule Cons.IH) (simp add: Cons.prems suffix_Cons)
  then show ?case using Cons.prems[of "c # cs" bol] by simp
qed

lemma escaped_char_set: "set (escaped_char c) \<subseteq> insert c entity_chars"
  by (simp add: escaped_char_def entity_chars_def)

lemma escape_set: "set (concat (map escaped_char s)) \<subseteq> set s \<union> entity_chars"
  using escaped_char_set by (induction s) fastforce+

lemma suffix_escaped_char:
  "suffix u (escaped_char c @ t) \<Longrightarrow> suffix u t \<or> (\<exists>z. z \<noteq> [] \<and> suffix z (escaped_char c) \<and> u = z @ t)"
  by (auto simp: suffix_append)

lemma hash_in_escape:
  assumes "CHR ''#'' \<notin> set s" "suffix u (concat (map escaped_char s))"
  shows "\<not> prefix ''# '' u \<and> \<not> prefix ''##'' u"
  using assms
proof (induction s)
  case Nil
  then show ?case by simp
next
  case (Cons c s)
  from Cons.prems(2) have "suffix u (escaped_char c @ concat (map escaped_char s))" by simp
  then consider "suffix u (concat (map escaped_char s))"
    | z where "z \<noteq> []" "suffix z (escaped_char c)" "u = z @ concat (map escaped_char s)"
    using suffix_escaped_char by blast
  then show ?case
  proof cases
    case 1
    then show ?thesis using Cons by simp
  next
    case 2
    then show ?thesis using Cons.prems(1)
      by (auto simp: escaped_char_def suffix_Cons split: if_splits)
  qed
qed

lemma js_lines_nonempty [simp]: "js_lines s \<noteq> []"
  by (induction s) (auto split: list.splits)

lemma hd_js_lines: "hd (js_lines s) = takeWhile dot s"
  by (induction s) (auto simp: dot_def split: list.splits)

lemma set_js_lines: "set (js_lines s) = insert (hd (js_lines s)) (set (tl (js_lines s)))"
  by (cases "js_lines s") auto

lemma no_match_line_matcher:
  assumes mark: "mark \<noteq> []" "\<forall>c \<in> set mark. dot c"
  shows "no_match (line_matcher mark) b s \<longleftrightarrow>
           (b \<longrightarrow> \<not> prefix mark (hd (js_lines s))) \<and> (\<forall>l \<in> set (tl (js_lines s)). \<not> prefix mark l)"
proof (induction s arbitrary: b)
  case Nil
  then show ?case by (simp add: line_matcher_def)
next
  case (Cons c cs)
  obtain l0 ls0 where j: "js_lines cs = l0 # ls0" by (cases "js_lines cs") auto
  show ?case
  proof (cases "is_line_terminator c")
    case True
    then have "\<not> prefix mark (c # cs)" using mark by (cases mark) (auto simp: dot_def)
    then show ?thesis using True Cons.IH[of True] mark(1) j by (simp add: line_matcher_def)
  next
    case False
    have d: "dot c" using False by (simp add: dot_def)
    have "l0 = takeWhile dot cs" using hd_js_lines[of cs] j by simp
    then have "prefix mark (c # cs) \<longleftrightarrow> prefix mark (c # l0)"
      using prefix_takeWhile[OF mark(2), of "c # cs"] d by simp
    then show ?thesis using False Cons.IH[of False] j by (simp add: line_matcher_def)
  qed
qed

lemma escaped_char_dot: "\<not> is_line_terminator c \<Longrightarrow> \<forall>x \<in> set (escaped_char c). \<not> is_line_terminator x"
  by (auto simp: escaped_char_def is_line_terminator_def)

lemma escaped_char_LT: "is_line_terminator c \<Longrightarrow> escaped_char c = [c]"
  by (auto simp: escaped_char_def is_line_terminator_def)

lemma js_lines_append_dot:
  "\<forall>x \<in> set e. \<not> is_line_terminator x \<Longrightarrow>
   js_lines (e @ t) = (e @ hd (js_lines t)) # tl (js_lines t)"
  by (induction e) (auto split: list.splits)

lemma js_lines_escape: "js_lines (escape s) = map escape (js_lines s)"
proof (induction s)
  case Nil
  then show ?case by simp
next
  case (Cons c cs)
  obtain l0 ls0 where j: "js_lines cs = l0 # ls0" by (cases "js_lines cs") auto
  show ?case
  proof (cases "is_line_terminator c")
    case True
    then show ?thesis using Cons by (simp add: escaped_char_LT)
  next
    case False
    then show ?thesis
      using Cons j js_lines_append_dot[OF escaped_char_dot[OF False], of "escape cs"]
      by simp
  qed
qed

lemma escaped_char_hd:
  "hd (escaped_char c) = (if c \<in> set [CHR ''<'', CHR ''>'', CHR 0x22, CHR 0x27] then CHR ''&'' else c)"
  "escaped_char c \<noteq> []"
  by (auto simp: escaped_char_def)

lemma prefix_char_escape:
  "\<not> escape_class x \<Longrightarrow> prefix [x] (escape l) \<longleftrightarrow> prefix [x] l"
proof (cases l)
  case Nil
  then show ?thesis by simp
next
  case (Cons c cs)
  assume x: "\<not> escape_class x"
  obtain h e where e: "escaped_char c = h # e" by (cases "escaped_char c") (auto simp: escaped_char_hd)
  then have "h = hd (escaped_char c)" by simp
  then have "x = h \<longleftrightarrow> x = c" using x by (auto simp: escaped_char_hd escape_class_def split: if_splits)
  then show ?thesis using Cons e by simp
qed

lemma prefix_list_mark_escape: "prefix ''- '' (escape l) \<longleftrightarrow> prefix ''- '' l"
proof (cases l)
  case Nil
  then show ?thesis by simp
next
  case (Cons c cs)
  show ?thesis
  proof (cases "c = CHR ''-''")
    case True
    then show ?thesis using prefix_char_escape[of "CHR '' ''" cs] by (simp add: Cons escaped_char_def escape_class_def)
  next
    case False
    obtain h e where e: "escaped_char c = h # e" by (cases "escaped_char c") (auto simp: escaped_char_hd)
    then have "h = hd (escaped_char c)" by simp
    then have "h \<noteq> CHR ''-''" using False by (auto simp: escaped_char_hd split: if_splits)
    then show ?thesis using False Cons e by simp
  qed
qed

lemma delim_no_match:
  "opn \<noteq> [] \<Longrightarrow> hd opn \<notin> set t \<Longrightarrow> no_match (delim_matcher opn ok cl) bol t"
proof (rule no_match_suffix)
  fix u b
  assume o: "opn \<noteq> []" "hd opn \<notin> set t" and "suffix u t"
  then have "hd opn \<notin> set u" by (meson set_mono_suffix subsetD)
  then have "\<not> prefix opn u" using o(1) by (cases opn; cases u) auto
  then show "delim_matcher opn ok cl b u = None" by (simp add: delim_matcher_def)
qed

text \<open>
  C9. For a string with none of the characters \<^verbatim>\<open>#\<close>, \<^verbatim>\<open>*\<close> and backtick and with no line
  that begins with \<^verbatim>\<open>- \<close> (the lines being what LF and CR separate, as for \<^verbatim>\<open>^\<close>), the
  renderer returns the escaped text as it is.
\<close>

theorem plain_text_unchanged:
  assumes hash: "CHR ''#'' \<notin> set s" and star: "CHR ''*'' \<notin> set s" and tick: "CHR 0x60 \<notin> set s"
      and list: "\<forall>l \<in> set (js_lines s). \<not> prefix ''- '' l"
  shows "formatMarkdown (escapeHtml (Str s)) = escapeHtml (Str s)"
proof -
  define t where "t = escape s"
  have t: "escapeHtml (Str s) = t" by (simp add: escapeHtml_Str t_def)
  have heading: "no_match (line_matcher mark) True t" if "prefix ''# '' mark \<or> prefix ''##'' mark" for mark
  proof (rule no_match_suffix)
    fix u b
    assume "suffix u t"
    then have "\<not> prefix ''# '' u \<and> \<not> prefix ''##'' u"
      using hash_in_escape[OF hash] by (simp add: t_def)
    then have "\<not> prefix mark u" using that by (meson prefix_order.trans)
    then show "line_matcher mark b u = None" by (simp add: line_matcher_def)
  qed
  have chars: "CHR ''*'' \<notin> set t" "CHR 0x60 \<notin> set t"
    using escape_set[of s] star tick by (auto simp: t_def entity_chars_def)
  have h3: "h3_pass t = t" unfolding h3_pass_def by (rule replace_all_no_match, rule heading) simp
  have h2: "h2_pass t = t" unfolding h2_pass_def by (rule replace_all_no_match, rule heading) simp
  have h1: "h1_pass t = t" unfolding h1_pass_def by (rule replace_all_no_match, rule heading) simp
  have bold: "bold_pass t = t" unfolding bold_pass_def
    by (rule replace_all_no_match, rule delim_no_match) (simp_all add: chars)
  have italic: "italic_pass t = t" unfolding italic_pass_def
    by (rule replace_all_no_match, rule delim_no_match) (simp_all add: chars)
  have code: "code_pass t = t" unfolding code_pass_def
    by (rule replace_all_no_match, rule delim_no_match) (simp_all add: chars)
  have fence: "fence_pass t = t" unfolding fence_pass_def
    by (rule replace_all_no_match, rule delim_no_match) (simp_all add: chars)
  have "\<forall>l \<in> set (js_lines t). \<not> prefix ''- '' l"
    using list by (simp add: t_def js_lines_escape prefix_list_mark_escape)
  then have "no_match (line_matcher ''- '') True t"
    using no_match_line_matcher[of "''- ''" True t] set_js_lines[of t] by (simp add: dot_def is_line_terminator_def)
  then have ul: "list_pass t = t" unfolding list_pass_def by (rule replace_all_no_match)
  show ?thesis
    unfolding t by (simp add: formatMarkdown_def h3 h2 h1 bold italic code fence ul)
qed

theorem plain_text_unchanged_witness:
  "formatMarkdown (escapeHtml (Str (''a < b & c'' @ [LF] @ ''x - y''))) =
     ''a &lt; b &amp; c'' @ [LF] @ ''x - y''"
proof -
  have e: "escapeHtml (Str (''a < b & c'' @ [LF] @ ''x - y'')) =
      ''a &lt; b &amp; c'' @ [LF] @ ''x - y''"
    by code_simp
  have l: "\<forall>l \<in> set (js_lines (''a < b & c'' @ [LF] @ ''x - y'')). \<not> prefix ''- '' l"
    by (simp add: is_line_terminator_def)
  show ?thesis
    using plain_text_unchanged [of "''a < b & c'' @ [LF] @ ''x - y''", OF _ _ _ l] e by simp
qed

section \<open>Safety of the rendered HTML\<close>

lemma lex_run_append:
  "lex_run p (a @ b) = (case lex_run p a of None \<Rightarrow> None | Some q \<Rightarrow> lex_run q b)"
  by (induction a arbitrary: p) (auto split: option.splits)

lemma lex_step_separator:
  assumes "c \<notin> token_chars" "lex_step p c = Some q"
  shows "p = [] \<and> q = []"
proof -
  have "\<not> prefix (p @ [c]) t" if "t \<in> set markup_tokens" for t
  proof
    assume "prefix (p @ [c]) t"
    then have "c \<in> set t" by (auto simp: prefix_def)
    then show False using assms(1) that by (auto simp: token_chars_def)
  qed
  then have "p @ [c] \<notin> set markup_tokens" "\<not> list_ex (prefix (p @ [c])) markup_tokens"
    by (auto simp: list_ex_iff)
  then show ?thesis using assms(2) by (auto simp: lex_step_def split: if_splits)
qed

lemma separators:
  "CHR ''*'' \<notin> token_chars" "CHR 0x60 \<notin> token_chars" "LF \<notin> token_chars" "CR \<notin> token_chars"
  by (simp_all add: token_chars_def markup_tokens_def html_entities_def renderer_tags_def)

lemma line_terminator_separator: "is_line_terminator c \<Longrightarrow> c \<notin> token_chars"
  using separators by (auto simp: is_line_terminator_def)

lemma lex_tokens:
  "lex_run [] ''<h3>'' = Some []" "lex_run [] ''</h3>'' = Some []"
  "lex_run [] ''<h2>'' = Some []" "lex_run [] ''</h2>'' = Some []"
  "lex_run [] ''<h1>'' = Some []" "lex_run [] ''</h1>'' = Some []"
  "lex_run [] ''<strong>'' = Some []" "lex_run [] ''</strong>'' = Some []"
  "lex_run [] ''<em>'' = Some []" "lex_run [] ''</em>'' = Some []"
  "lex_run [] ''<code>'' = Some []" "lex_run [] ''</code>'' = Some []"
  "lex_run [] ''<ul><li>'' = Some []" "lex_run [] ''</li></ul>'' = Some []"
  "lex_run [] ''### '' = Some []" "lex_run [] ''## '' = Some []"
  "lex_run [] ''# '' = Some []" "lex_run [] ''- '' = Some []"
  by code_simp+

lemma lex_escaped_char: "lex_run [] (escaped_char c) = Some []"
proof -
  have e: "lex_run [] ''&amp;'' = Some []" "lex_run [] ''&lt;'' = Some []" "lex_run [] ''&gt;'' = Some []"
    "lex_run [] ''&quot;'' = Some []" "lex_run [] ''&#039;'' = Some []"
    by code_simp+
  have "lex_step [] c = Some []" if "c \<noteq> CHR ''&''" "c \<noteq> CHR ''<''" "c \<noteq> CHR ''>''"
    using that
    by (simp add: lex_step_def markup_tokens_def html_entities_def renderer_tags_def)
  then show ?thesis using e by (simp add: escaped_char_def)
qed

lemma html_safe_escape: "lex_run [] (concat (map escaped_char s)) = Some []"
  by (induction s) (simp_all add: lex_run_append lex_escaped_char)

lemma lex_run_Some_append:
  "lex_run p (a @ b) = Some q \<Longrightarrow> \<exists>q'. lex_run p a = Some q' \<and> lex_run q' b = Some q"
  by (simp add: lex_run_append split: option.splits)

lemma lex_run_separator:
  "lex_run p (c # cs) = Some q \<Longrightarrow> c \<notin> token_chars \<Longrightarrow> p = [] \<and> lex_run [] cs = Some q"
  using lex_step_separator by (fastforce split: option.splits)

lemma replace_all_safe:
  assumes M: "\<And>b u cap rest p. m b u = Some (cap, rest) \<Longrightarrow> (b \<longrightarrow> p = []) \<Longrightarrow>
                lex_run p u = Some [] \<Longrightarrow>
                length rest < length u \<and> lex_run p (r cap) = Some [] \<and> lex_run [] rest = Some []"
  shows "(bol \<longrightarrow> p = []) \<Longrightarrow> lex_run p t = Some [] \<Longrightarrow>
         lex_run p (replace_all m r bol t) = Some []"
proof (induction t arbitrary: p bol rule: length_induct)
  case (1 t)
  show ?case
  proof (cases "m bol t")
    case None
    show ?thesis
    proof (cases t)
      case Nil
      then show ?thesis using None 1(3) by (simp add: replace_all_Nil)
    next
      case (Cons c cs)
      from 1(3) obtain p' where p': "lex_step p c = Some p'" "lex_run p' cs = Some []"
        by (auto simp: Cons split: option.splits)
      have "is_line_terminator c \<longrightarrow> p' = []"
        using lex_step_separator[OF line_terminator_separator p'(1)] by simp
      then have "lex_run p' (replace_all m r (is_line_terminator c) cs) = Some []"
        using 1(1) p'(2) by (simp add: Cons)
      then show ?thesis using None p'(1) by (simp add: Cons replace_all_None)
    qed
  next
    case (Some a)
    obtain cap rest where a: "m bol t = Some (cap, rest)" using Some by (cases a) auto
    from M[OF a 1(2) 1(3)] have m: "length rest < length t" "lex_run p (r cap) = Some []"
      "lex_run [] rest = Some []" by simp_all
    have "lex_run [] (replace_all m r (is_line_terminator (last (take (length t - length rest) t))) rest) = Some []"
      using 1(1) m(1) m(3) by simp
    then show ?thesis
      using replace_all_Some[where m = m and bol = bol and s = t and cap = cap and rest = rest and r = r, OF a m(1)] m(2)
      by (simp add: lex_run_append)
  qed
qed

lemma lazy_until_split: "lazy_until ok cl u = Some (cap, rest) \<Longrightarrow> u = cap @ cl @ rest"
proof (induction u arbitrary: cap)
  case Nil
  then show ?case by (simp split: if_splits)
next
  case (Cons c cs)
  then show ?case
    by (auto simp: prefix_def split: if_splits option.splits)
qed

lemma line_matcher_safe:
  assumes "mark \<noteq> []" "lex_run [] mark = Some []" "lex_run [] opening = Some []"
    "lex_run [] closing = Some []"
    and m: "line_matcher mark b u = Some (cap, rest)" and p: "b \<longrightarrow> p = []"
    and u: "lex_run p u = Some []"
  shows "length rest < length u \<and> lex_run p (wrap opening closing cap) = Some [] \<and>
         lex_run [] rest = Some []"
proof -
  define body where "body = drop (length mark) u"
  from m have b: "b" "prefix mark u" "cap = takeWhile dot body" "rest = dropWhile dot body"
    by (auto simp: line_matcher_def body_def split: if_splits)
  then have p0: "p = []" and us: "u = mark @ cap @ rest" using p by (auto simp: body_def prefix_def)
  obtain x xs where "mark = x # xs" using assms(1) by (cases mark) auto
  then have len: "length rest < length u" by (simp add: us)
  from u have "lex_run [] (cap @ rest) = Some []"
    using assms(2) by (simp add: us p0 lex_run_append)
  then obtain q where q: "lex_run [] cap = Some q" "lex_run q rest = Some []"
    using lex_run_Some_append by blast
  have "q = [] \<and> lex_run [] rest = Some []"
  proof (cases rest)
    case Nil
    then show ?thesis using q by simp
  next
    case (Cons c cs)
    then have "\<not> dot c" using b(4) by (metis hd_dropWhile list.sel(1) list.distinct(1))
    then have "c \<notin> token_chars" by (simp add: dot_def line_terminator_separator)
    from lex_run_separator[OF q(2)[unfolded Cons] this] have "q = []" by simp
    then show ?thesis using q by simp
  qed
  then show ?thesis using len q assms(3,4) by (simp add: wrap_def p0 lex_run_append)
qed

lemma lex_run_separators:
  "\<forall>c \<in> set xs. c \<notin> token_chars \<Longrightarrow> xs \<noteq> [] \<Longrightarrow> lex_run p (xs @ ys) = Some q \<Longrightarrow>
   p = [] \<and> lex_run [] ys = Some q"
proof (induction xs arbitrary: p)
  case Nil
  then show ?case by simp
next
  case (Cons x xs)
  from Cons.prems have x: "x \<notin> token_chars" and run: "lex_run p (x # xs @ ys) = Some q" by simp_all
  from lex_run_separator[OF run x] have p: "p = []" "lex_run [] (xs @ ys) = Some q" by simp_all
  show ?case
  proof (cases xs)
    case Nil
    then show ?thesis using p by simp
  next
    case (Cons x' xs')
    then show ?thesis using Cons.IH[of "[]"] Cons.prems(1) p by simp
  qed
qed

lemma delim_matcher_safe:
  assumes "opn \<noteq> []" "close \<noteq> []" "\<forall>c \<in> set opn. c \<notin> token_chars"
    "\<forall>c \<in> set close. c \<notin> token_chars"
    "lex_run [] opening = Some []" "lex_run [] closing = Some []"
    and m: "delim_matcher opn ok close b u = Some (cap, rest)"
    and u: "lex_run p u = Some []"
  shows "length rest < length u \<and> lex_run p (wrap opening closing cap) = Some [] \<and>
         lex_run [] rest = Some []"
proof -
  from m have "prefix opn u" "lazy_until ok close (drop (length opn) u) = Some (cap, rest)"
    by (auto simp: delim_matcher_def split: if_splits)
  then have us: "u = opn @ cap @ close @ rest" using lazy_until_split by (fastforce simp: prefix_def)
  obtain x xs where o: "opn = x # xs" using assms(1) by (cases opn) auto
  then have len: "length rest < length u" by (simp add: us)
  from u have "lex_run p (opn @ cap @ close @ rest) = Some []" by (simp only: us)
  from lex_run_separators[OF assms(3) assms(1) this]
  have p0: "p = []" and "lex_run [] (cap @ close @ rest) = Some []" by simp_all
  then obtain q where q: "lex_run [] cap = Some q" "lex_run q (close @ rest) = Some []"
    using lex_run_Some_append by blast
  from lex_run_separators[OF assms(4) assms(2) q(2)] have "q = []" "lex_run [] rest = Some []"
    by simp_all
  then show ?thesis using len q assms(5,6) by (simp add: wrap_def p0 lex_run_append)
qed

lemma adjacent_backticks_append:
  "CHR 0x60 \<notin> set xs \<Longrightarrow> adjacent_backticks (xs @ ys) = adjacent_backticks ys"
proof (induction xs)
  case Nil
  then show ?case by simp
next
  case (Cons x xs)
  then show ?case by (cases "xs @ ys") auto
qed

lemma lazy_until_no_close:
  "lazy_until ok [c] u = Some (cap, rest) \<Longrightarrow> c \<notin> set cap"
proof (induction u arbitrary: cap)
  case Nil
  then show ?case by simp
next
  case (Cons x xs)
  then show ?case by (auto split: if_splits option.splits)
qed

lemma code_pass_no_adjacent:
  "\<not> adjacent_backticks (replace_all (delim_matcher [CHR 0x60] ok [CHR 0x60]) (wrap ''<code>'' ''</code>'') bol t) \<and>
   (prefix [CHR 0x60] (replace_all (delim_matcher [CHR 0x60] ok [CHR 0x60]) (wrap ''<code>'' ''</code>'') bol t)
      \<longrightarrow> prefix [CHR 0x60] t)"
proof (induction t arbitrary: bol rule: length_induct)
  case (1 t)
  let ?m = "delim_matcher [CHR 0x60] ok [CHR 0x60]" and ?r = "wrap ''<code>'' ''</code>''"
  show ?case
  proof (cases "?m bol t")
    case None
    show ?thesis
    proof (cases t)
      case Nil
      then show ?thesis using None by (simp add: replace_all_Nil)
    next
      case (Cons c cs)
      have out: "replace_all ?m ?r bol (c # cs) = c # replace_all ?m ?r (is_line_terminator c) cs"
        using None by (simp add: Cons replace_all_None)
      have IH: "\<not> adjacent_backticks (replace_all ?m ?r (is_line_terminator c) cs)"
        "prefix [CHR 0x60] (replace_all ?m ?r (is_line_terminator c) cs) \<longrightarrow> prefix [CHR 0x60] cs"
        using 1[rule_format, of cs "is_line_terminator c"] by (simp_all add: Cons)
      have "\<not> (c = CHR 0x60 \<and> prefix [CHR 0x60] cs)"
        using None by (cases cs) (auto simp: Cons delim_matcher_def)
      then have "\<not> (c = CHR 0x60 \<and> prefix [CHR 0x60] (replace_all ?m ?r (is_line_terminator c) cs))"
        using IH(2) by blast
      then have "\<not> adjacent_backticks (c # replace_all ?m ?r (is_line_terminator c) cs)"
        using IH(1) by (cases "replace_all ?m ?r (is_line_terminator c) cs") auto
      then show ?thesis unfolding Cons out by auto
    qed
  next
    case (Some a)
    obtain cap rest where a: "?m bol t = Some (cap, rest)" using Some by (cases a) auto
    then have p: "prefix [CHR 0x60] t" and l: "lazy_until ok [CHR 0x60] (drop 1 t) = Some (cap, rest)"
      by (auto simp: delim_matcher_def split: if_splits)
    then have t: "t = CHR 0x60 # cap @ CHR 0x60 # rest"
      using lazy_until_split[OF l] by (cases t) auto
    then have len: "length rest < length t" by simp
    have cap: "CHR 0x60 \<notin> set cap" by (rule lazy_until_no_close[OF l])
    have out: "replace_all ?m ?r bol t = (''<code>'' @ cap @ ''</code>'') @
        replace_all ?m ?r (is_line_terminator (last (take (length t - length rest) t))) rest"
      using replace_all_Some[where m = ?m and bol = bol and s = t and cap = cap and rest = rest and r = ?r, OF a len]
      by (simp add: wrap_def)
    have IH: "\<not> adjacent_backticks (replace_all ?m ?r (is_line_terminator (last (take (length t - length rest) t))) rest)"
      using 1[rule_format, of rest] len by simp
    have "CHR 0x60 \<notin> set (''<code>'' @ cap @ ''</code>'')" using cap by simp
    from adjacent_backticks_append[OF this]
    have "\<not> adjacent_backticks (replace_all ?m ?r bol t)"
      unfolding out using IH by simp
    moreover have "\<not> prefix [CHR 0x60] (replace_all ?m ?r bol t)" unfolding out by simp
    ultimately show ?thesis by simp
  qed
qed

lemma adjacent_backticks_suffix: "suffix u t \<Longrightarrow> adjacent_backticks u \<Longrightarrow> adjacent_backticks t"
proof (induction t)
  case Nil
  then show ?case by simp
next
  case (Cons c cs)
  then show ?case by (cases cs) (auto simp: suffix_Cons)
qed

lemma fence_pass_dead: "\<not> adjacent_backticks t \<Longrightarrow> fence_pass t = t"
  unfolding fence_pass_def
proof (rule replace_all_no_match, rule no_match_suffix)
  fix u b
  assume t: "\<not> adjacent_backticks t" and s: "suffix u t"
  have "\<not> prefix (replicate 3 (CHR 0x60)) u"
  proof
    assume "prefix (replicate 3 (CHR 0x60)) u"
    then have "adjacent_backticks u" by (auto simp: prefix_def numeral_3_eq_3)
    then show False using adjacent_backticks_suffix[OF s] t by simp
  qed
  then show "delim_matcher (replicate 3 (CHR 0x60)) any_char (replicate 3 (CHR 0x60)) b u = None"
    by (simp add: delim_matcher_def)
qed

lemma fence_after_code: "fence_pass (code_pass t) = code_pass t"
  by (rule fence_pass_dead) (simp add: code_pass_def code_pass_no_adjacent)

lemma formatMarkdown_safe: "html_safe (formatMarkdown (escapeHtml (Str s)))"
proof -
  define t0 where "t0 = concat (map escaped_char s)"
  have t0: "lex_run [] t0 = Some []" unfolding t0_def by (rule html_safe_escape)
  have line: "lex_run [] (replace_all (line_matcher mark) (wrap opening closing) True t) = Some []"
    if "lex_run [] t = Some []" "mark \<noteq> []" "lex_run [] mark = Some []"
      "lex_run [] opening = Some []" "lex_run [] closing = Some []" for mark "opening" closing t
    by (rule replace_all_safe[where p = "[]"], rule line_matcher_safe) (use that in simp_all)
  have delim: "lex_run [] (replace_all (delim_matcher opn ok close) (wrap opening closing) True t) = Some []"
    if "lex_run [] t = Some []" "opn \<noteq> []" "close \<noteq> []" "\<forall>c \<in> set opn. c \<notin> token_chars"
      "\<forall>c \<in> set close. c \<notin> token_chars"
      "lex_run [] opening = Some []" "lex_run [] closing = Some []" for opn ok close "opening" closing t
    by (rule replace_all_safe[where p = "[]"], rule delim_matcher_safe) (use that in simp_all)
  have t1: "lex_run [] (h3_pass t0) = Some []"
    unfolding h3_pass_def by (rule line) (simp_all add: t0 lex_tokens del: lex_run.simps)
  have t2: "lex_run [] (h2_pass (h3_pass t0)) = Some []"
    unfolding h2_pass_def by (rule line) (simp_all add: t1 lex_tokens del: lex_run.simps)
  have t3: "lex_run [] (h1_pass (h2_pass (h3_pass t0))) = Some []"
    unfolding h1_pass_def by (rule line) (simp_all add: t2 lex_tokens del: lex_run.simps)
  have t4: "lex_run [] (bold_pass (h1_pass (h2_pass (h3_pass t0)))) = Some []"
    unfolding bold_pass_def by (rule delim) (simp_all add: t3 lex_tokens separators del: lex_run.simps)
  have t5: "lex_run [] (italic_pass (bold_pass (h1_pass (h2_pass (h3_pass t0))))) = Some []"
    unfolding italic_pass_def by (rule delim) (simp_all add: t4 lex_tokens separators del: lex_run.simps)
  have t6: "lex_run [] (code_pass (italic_pass (bold_pass (h1_pass (h2_pass (h3_pass t0)))))) = Some []"
    unfolding code_pass_def by (rule delim) (simp_all add: t5 lex_tokens separators del: lex_run.simps)
  have t8: "lex_run [] (list_pass (code_pass (italic_pass (bold_pass (h1_pass (h2_pass (h3_pass t0))))))) = Some []"
    unfolding list_pass_def by (rule line) (simp_all add: t6 lex_tokens del: lex_run.simps)
  show ?thesis
    using t8 by (simp add: html_safe_def formatMarkdown_def fence_after_code
        escapeHtml_Str t0_def)
qed

lemma replace_all_count:
  assumes M: "\<And>b u cap rest. m b u = Some (cap, rest) \<Longrightarrow>
                length rest < length u \<and> count_list (r cap) x + count_list rest x = count_list u x"
  shows "count_list (replace_all m r bol t) x = count_list t x"
proof (induction t arbitrary: bol rule: length_induct)
  case (1 t)
  show ?case
  proof (cases "m bol t")
    case None
    show ?thesis
    proof (cases t)
      case Nil
      then show ?thesis using None by (simp add: replace_all_Nil)
    next
      case (Cons c cs)
      then show ?thesis using None 1 by (simp add: replace_all_None)
    qed
  next
    case (Some a)
    obtain cap rest where a: "m bol t = Some (cap, rest)" using Some by (cases a) auto
    from M[OF a] have m: "length rest < length t"
      "count_list (r cap) x + count_list rest x = count_list t x" by simp_all
    show ?thesis
      using replace_all_Some[where m = m and bol = bol and s = t and cap = cap and rest = rest and r = r, OF a m(1)]
        1[rule_format, OF m(1)] m(2)
      by simp
  qed
qed

lemma line_matcher_count:
  assumes "mark \<noteq> []" "count_list mark x = 0" "count_list o1 x = 0" "count_list c1 x = 0"
    and m: "line_matcher mark b u = Some (cap, rest)"
  shows "length rest < length u \<and> count_list (wrap o1 c1 cap) x + count_list rest x = count_list u x"
proof -
  define body where "body = drop (length mark) u"
  from m have b: "prefix mark u" "cap = takeWhile dot body" "rest = dropWhile dot body"
    by (auto simp: line_matcher_def body_def split: if_splits)
  then have us: "u = mark @ cap @ rest" by (auto simp: body_def prefix_def)
  obtain y ys where "mark = y # ys" using assms(1) by (cases mark) auto
  then have len: "length rest < length u" by (simp add: us)
  have "count_list u x = count_list (mark @ cap @ rest) x" by (simp only: us[symmetric])
  then show ?thesis using len assms(2-4) by (simp add: wrap_def)
qed

lemma delim_matcher_count:
  assumes "opn \<noteq> []" "count_list opn x = 0" "count_list close x = 0"
    "count_list o1 x = 0" "count_list c1 x = 0"
    and m: "delim_matcher opn ok close b u = Some (cap, rest)"
  shows "length rest < length u \<and> count_list (wrap o1 c1 cap) x + count_list rest x = count_list u x"
proof -
  from m have "prefix opn u" "lazy_until ok close (drop (length opn) u) = Some (cap, rest)"
    by (auto simp: delim_matcher_def split: if_splits)
  then have us: "u = opn @ cap @ close @ rest" using lazy_until_split by (fastforce simp: prefix_def)
  obtain y ys where o: "opn = y # ys" using assms(1) by (cases opn) auto
  then have len: "length rest < length u" by (simp add: us)
  have "count_list u x = count_list (opn @ cap @ close @ rest) x" by (simp only: us[symmetric])
  then show ?thesis using len assms(2-5) by (simp add: wrap_def)
qed

lemma count_escaped_char:
  "count_list (escaped_char c) (CHR ''&'') = (if escape_class c then 1 else 0)"
  by (simp add: escaped_char_def escape_class_def)

lemma count_escape:
  "count_list (concat (map escaped_char s)) (CHR ''&'') = length (filter escape_class s)"
  by (induction s) (simp_all add: count_escaped_char)

lemma escape_no_angle:
  "CHR ''<'' \<notin> set (concat (map escaped_char s)) \<and> CHR ''>'' \<notin> set (concat (map escaped_char s))"
  by (induction s) (auto simp: escaped_char_def split: if_splits)

lemma entities_kept:
  "count_list (formatMarkdown (escapeHtml (Str s))) (CHR ''&'') = length (filter escape_class s)"
proof -
  have line: "count_list (replace_all (line_matcher mark) (wrap o1 c1) True t) (CHR ''&'') =
      count_list t (CHR ''&'')"
    if "mark \<noteq> []" "count_list mark (CHR ''&'') = 0" "count_list o1 (CHR ''&'') = 0"
      "count_list c1 (CHR ''&'') = 0" for mark o1 c1 t
    by (rule replace_all_count, rule line_matcher_count) (use that in simp_all)
  have delim: "count_list (replace_all (delim_matcher opn ok close) (wrap o1 c1) True t) (CHR ''&'') =
      count_list t (CHR ''&'')"
    if "opn \<noteq> []" "count_list opn (CHR ''&'') = 0" "count_list close (CHR ''&'') = 0"
      "count_list o1 (CHR ''&'') = 0" "count_list c1 (CHR ''&'') = 0" for opn ok close o1 c1 t
    by (rule replace_all_count, rule delim_matcher_count) (use that in simp_all)
  show ?thesis
    unfolding formatMarkdown_def fence_after_code
    by (simp add: escapeHtml_Str count_escape[symmetric]
        list_pass_def code_pass_def italic_pass_def bold_pass_def h1_pass_def h2_pass_def h3_pass_def
        line delim)
qed

text \<open>
  C2. For every string \<open>s\<close>: the escaped string has no \<^verbatim>\<open><\<close> and no \<^verbatim>\<open>>\<close>; the HTML that the
  renderer makes of it is safe, that is, a \<^verbatim>\<open><\<close> or \<^verbatim>\<open>>\<close> occurs in it only in a tag that a
  rule of the renderer wrote and a \<^verbatim>\<open>&\<close> only as the start of one of the five entities; and
  it has as many \<^verbatim>\<open>&\<close> as \<open>s\<close> has characters to escape, so that none of them is lost or
  doubled. The \<^verbatim>\<open><\<close>, \<^verbatim>\<open>>\<close> and \<^verbatim>\<open>&\<close> of the input reach the output as entities only.
\<close>

theorem rendered_html_safe:
  "CHR ''<'' \<notin> set (escapeHtml (Str s)) \<and> CHR ''>'' \<notin> set (escapeHtml (Str s)) \<and>
   html_safe (formatMarkdown (escapeHtml (Str s))) \<and>
   count_list (formatMarkdown (escapeHtml (Str s))) (CHR ''&'') = length (filter escape_class s)"
  using escape_no_angle [of s] formatMarkdown_safe [of s] entities_kept [of s]
  by (simp add: escapeHtml_Str)

theorem rendered_html_safe_witness:
  "formatMarkdown (escapeHtml (Str ''# <script>alert(*1*)</script> & more'')) =
     ''<h1>&lt;script&gt;alert(<em>1</em>)&lt;/script&gt; &amp; more</h1>'' \<and>
   html_safe ''<h1>&lt;script&gt;alert(<em>1</em>)&lt;/script&gt; &amp; more</h1>'' \<and>
   count_list ''<h1>&lt;script&gt;alert(<em>1</em>)&lt;/script&gt; &amp; more</h1>'' (CHR ''&'') = 5 \<and>
   \<not> html_safe ''<h1><script>alert(1)</script></h1>''"
proof -
  have e: "formatMarkdown (escapeHtml (Str ''# <script>alert(*1*)</script> & more'')) =
     ''<h1>&lt;script&gt;alert(<em>1</em>)&lt;/script&gt; &amp; more</h1>''"
    by code_simp
  have n: "\<not> html_safe ''<h1><script>alert(1)</script></h1>''"
    by code_simp
  have c: "length (filter escape_class ''# <script>alert(*1*)</script> & more'') = 5"
    by code_simp
  show ?thesis
    using rendered_html_safe [of "''# <script>alert(*1*)</script> & more''"] n
    unfolding e c by simp
qed

text \<open>
  The rule for fenced code blocks never applies: the rule for inline code, which comes
  before it, leaves no two backticks side by side. A text between triple backticks is
  rendered as three inline code elements, without the code block and its copy button.
\<close>

theorem fenced_block_never_rendered:
  "fence_pass (code_pass t) = code_pass t \<and>
   formatMarkdown (escapeHtml (Str (replicate 3 (CHR 0x60) @ ''print(1)'' @ replicate 3 (CHR 0x60)))) =
     ''<code></code><code>print(1)</code><code></code>''"
proof -
  have "formatMarkdown (escapeHtml (Str (replicate 3 (CHR 0x60) @ ''print(1)'' @ replicate 3 (CHR 0x60)))) =
     ''<code></code><code>print(1)</code><code></code>''"
    by code_simp
  then show ?thesis by (simp add: fence_after_code)
qed

end
